theory Spec2Isabelle
  imports Complex_Main "HOL-Library.Char_ord" "HOL-Library.List_Lexorder" "HOL-Library.Log_Nat"
begin

section \<open>JavaScript values used by the service\<close>

text \<open>
  Strings are lists of 8-bit code units; \<open>s < t\<close> and \<open>s \<le> t\<close> are the
  lexicographic order on code units, which is how JavaScript compares two strings.
  An optional property or parameter (\<open>from?: string\<close>) is an \<open>option\<close>.
\<close>

definition truthy :: "string option \<Rightarrow> bool" where
  \<comment> \<open>JavaScript truthiness of an optional string: \<open>undefined\<close> and \<open>''\<close> are falsy.\<close>
  "truthy v = (case v of None \<Rightarrow> False | Some s \<Rightarrow> s \<noteq> [])"

definition is_digit :: "char \<Rightarrow> bool" where
  \<comment> \<open>the regular expression class \<open>\d\<close>\<close>
  "is_digit c = (CHR ''0'' \<le> c \<and> c \<le> CHR ''9'')"

definition is_space :: "char \<Rightarrow> bool" where
  \<comment> \<open>white space and line terminators removed by \<open>String.prototype.trim\<close>
      (code units below 256: TAB, LF, VT, FF, CR, SP, NBSP)\<close>
  "is_space c = ((of_char c :: nat) \<in> set [9, 10, 11, 12, 13, 32, 160])"

definition trim :: "string \<Rightarrow> string" where
  "trim s = rev (dropWhile is_space (rev (dropWhile is_space s)))"

fun split_on :: "(char \<Rightarrow> bool) \<Rightarrow> string \<Rightarrow> string list" where
  \<comment> \<open>\<open>s.split(/[..]/)\<close> for a one-character class: the pieces between separators,
      empty pieces included\<close>
  "split_on sep [] = [[]]"
| "split_on sep (c # cs) =
     (if sep c then [] # split_on sep cs
      else (case split_on sep cs of
              [] \<Rightarrow> [[c]]
            | p # ps \<Rightarrow> (c # p) # ps))"

definition padStart2 :: "string \<Rightarrow> string" where
  \<comment> \<open>\<open>s.padStart(2, '0')\<close>\<close>
  "padStart2 s = replicate (2 - length s) CHR ''0'' @ s"

section \<open>Data model\<close>

text \<open>
  The interfaces of the service. A field the TypeScript declares optional is an
  \<open>option\<close>. \<open>timeSpentSeconds\<close> is a non-negative whole number of seconds; sums of them
  are exact below \<open>2^53\<close>, where JavaScript numbers hold every integer.
\<close>

record author =
  accountId :: "string option"
  emailAddress :: "string option"
  displayName :: "string option"

record worklog =
  author :: author
  timeSpentSeconds :: nat
  started :: "string option"
  created :: "string option"

record worklog_page =
  \<comment> \<open>\<open>{ total, worklogs }\<close>: a page of the worklog endpoint, or the preview embedded in an
      issue; a missing \<open>worklogs\<close> array reads as the empty list (\<open>|| []\<close>)\<close>
  p_total :: nat
  p_worklogs :: "worklog list"

record fields =
  f_summary :: "string option"
  f_assignee :: "string option"
  f_worklog :: "worklog_page option"

record issue =
  i_id :: string
  key :: string
  i_fields :: "fields option"

record resource =
  \<comment> \<open>\<open>AccessibleResource\<close>\<close>
  res_id :: string
  scopes :: "string list option"

record options =
  \<comment> \<open>the \<open>options\<close> argument of \<open>getHoursByUser\<close>\<close>
  o_jql :: "string option"
  o_from :: "string option"
  o_to :: "string option"
  o_username :: "string option"
  o_projectKey :: "string option"

record out_issue =
  \<comment> \<open>an entry of a user's \<open>issues\<close> in the response\<close>
  oi_id :: string
  oi_key :: string
  oi_summary :: string
  oi_assignee :: "string option"
  oi_worklog :: "worklog list"

record user_hours =
  \<comment> \<open>one record of the response's \<open>worklogs\<close> list\<close>
  user :: string
  hours :: string
  r_worklogs :: "worklog list"
  r_issues :: "out_issue list"

record bucket =
  \<comment> \<open>a value of \<open>worklogsByUser\<close>: the seconds so far and the insertion-ordered map
      from issue key to the issue and the user's worklogs on it\<close>
  b_seconds :: nat
  b_issues :: "(string \<times> issue \<times> worklog list) list"

datatype error =
    UnauthorizedException string      \<comment> \<open>NestJS exception, with its message\<close>
  | HttpError "nat option"            \<comment> \<open>the HTTP client's rejection: \<open>response?.status\<close>\<close>
  | Error string                      \<comment> \<open>\<open>new Error(...)\<close>: the fixed head of its message\<close>
  | RangeError                        \<comment> \<open>\<open>toISOString\<close> of an invalid date\<close>
  | TypeError                         \<comment> \<open>a property read on \<open>undefined\<close>\<close>
  | NotModelled                       \<comment> \<open>\<open>new Date(s)\<close> on a string outside the ISO format\<close>

type_synonym 'a result = "error + 'a"

definition response_status :: "error \<Rightarrow> nat option" where
  \<comment> \<open>\<open>error.response?.status\<close> as the catch blocks read it. The \<open>response\<close> of a NestJS
      exception is its body \<open>{message, error, statusCode}\<close>, which has no \<open>status\<close>.\<close>
  "response_status e = (case e of HttpError st \<Rightarrow> st | _ \<Rightarrow> None)"

record upstream =
  \<comment> \<open>The Atlassian API as the service sees it: each request either is rejected by the
      HTTP client (\<open>Inl\<close> the response status, if there was a response) or yields its data.
      Searches run one after another, so a search may also depend on how many were made
      before it.\<close>
  accessible_resources :: "string \<Rightarrow> nat option + resource list option"
  search_jql :: "nat \<Rightarrow> string \<Rightarrow> string \<Rightarrow> string \<Rightarrow> nat option + issue list option"
  issue_worklog :: "string \<Rightarrow> string \<Rightarrow> string \<Rightarrow> nat \<Rightarrow> nat option + worklog_page"

section \<open>Date normalisation and worklog date filter\<close>

definition matches_iso_date :: "string \<Rightarrow> bool" where
  \<comment> \<open>\<open>/^\d{4}-\d{2}-\d{2}$/.test(s)\<close>\<close>
  "matches_iso_date s =
     (length s = 10 \<and> list_all is_digit (take 4 s) \<and> s ! 4 = CHR ''-'' \<and>
      list_all is_digit (take 2 (drop 5 s)) \<and> s ! 7 = CHR ''-'' \<and>
      list_all is_digit (drop 8 s))"

definition is_date_sep :: "char \<Rightarrow> bool" where
  \<comment> \<open>the class \<open>[-/]\<close>\<close>
  "is_date_sep c = (c = CHR ''-'' \<or> c = CHR ''/'')"

definition normalizeToYYYYMMDD :: "string option \<Rightarrow> string option" where
  "normalizeToYYYYMMDD dateStr =
     (case dateStr of
        None \<Rightarrow> None
      | Some s \<Rightarrow>
          if s = [] then Some s
          else let trimmed = trim s in
            if matches_iso_date trimmed then Some trimmed
            else (case split_on is_date_sep trimmed of
                    [d, m, y] \<Rightarrow>
                      if length d \<le> 2 \<and> length m \<le> 2 \<and> length y = 4
                      then Some (y @ ''-'' @ padStart2 m @ ''-'' @ padStart2 d)
                      else Some trimmed
                  | _ \<Rightarrow> Some trimmed))"

definition isWorklogInDateRange :: "worklog \<Rightarrow> string option \<Rightarrow> string option \<Rightarrow> bool" where
  "isWorklogInDateRange w from to =
     (if \<not> truthy from \<and> \<not> truthy to then True
      else if \<not> truthy (started w) then False
      else let dateStr = takeWhile (\<lambda>c. c \<noteq> CHR ''T'') (the (started w)) in
        if truthy from \<and> dateStr < the from then False
        else if truthy to \<and> dateStr > the to then False
        else True)"

section \<open>Dates\<close>

text \<open>
  The part of ECMAScript's \<open>Date\<close> the service uses, after the language specification:
  a time value is a number of milliseconds since 1970-01-01T00:00:00Z or \<open>NaN\<close> (here
  \<open>None\<close>); \<open>Day\<close>, \<open>DayFromYear\<close>, \<open>MakeDay\<close>, \<open>MakeDate\<close> and \<open>TimeClip\<close> are the
  specification's abstract operations, \<open>YearFromDay\<close>, \<open>MonthFromDay\<close> and \<open>DateFromDay\<close>
  its \<open>YearFromTime\<close>, \<open>MonthFromTime\<close> and \<open>DateFromTime\<close> on day numbers.
  \<open>iso_date\<close> is the date part of \<open>toISOString()\<close>, and \<open>Date_parse\<close> reads the two shapes
  the service builds: \<open>YYYY-MM-DD\<close> (or with an expanded year \<open>\<plusminus>YYYYYY\<close>), alone or followed
  by \<open>THH:mm:ss.sssZ\<close>. On any other string the engine falls back to parsing rules of its
  own; the model stops there (\<open>None\<close>).
\<close>

definition msPerDay :: int where "msPerDay = 86400000"
definition Day :: "int \<Rightarrow> int" where "Day t = t div msPerDay"
definition TimeWithinDay :: "int \<Rightarrow> int" where "TimeWithinDay t = t mod msPerDay"

definition DayFromYear :: "int \<Rightarrow> int" where
  "DayFromYear y = 365 * (y - 1970) + (y - 1969) div 4 - (y - 1901) div 100 + (y - 1601) div 400"

definition leap_year :: "int \<Rightarrow> bool" where
  "leap_year y = (y mod 4 = 0 \<and> (y mod 100 \<noteq> 0 \<or> y mod 400 = 0))"

definition DaysInYear :: "int \<Rightarrow> int" where
  "DaysInYear y = (if leap_year y then 366 else 365)"

definition YearFromDay :: "int \<Rightarrow> int" where
  "YearFromDay d =
     (let y0 = 1970 + (400 * d) div 146097 in
      if DayFromYear (y0 + 1) \<le> d then y0 + 1
      else if d < DayFromYear y0 then y0 - 1
      else y0)"

definition DayWithinYear :: "int \<Rightarrow> int" where
  "DayWithinYear d = d - DayFromYear (YearFromDay d)"

definition InLeapYear :: "int \<Rightarrow> bool" where
  "InLeapYear d = leap_year (YearFromDay d)"

definition month_start :: "bool \<Rightarrow> nat \<Rightarrow> int" where
  \<comment> \<open>days of the year before month \<open>m\<close> (0 = January); \<open>m = 12\<close> gives the year's length\<close>
  "month_start l m =
     (let L = (if l then 1 else 0) in
      if m = 0 then 0 else if m = 1 then 31 else if m = 2 then 59 + L
      else if m = 3 then 90 + L else if m = 4 then 120 + L else if m = 5 then 151 + L
      else if m = 6 then 181 + L else if m = 7 then 212 + L else if m = 8 then 243 + L
      else if m = 9 then 273 + L else if m = 10 then 304 + L else if m = 11 then 334 + L
      else 365 + L)"

definition MonthFromDay :: "int \<Rightarrow> nat" where
  "MonthFromDay d =
     (let w = DayWithinYear d; L = (if InLeapYear d then 1 else 0) in
      if w < 31 then 0 else if w < 59 + L then 1 else if w < 90 + L then 2
      else if w < 120 + L then 3 else if w < 151 + L then 4 else if w < 181 + L then 5
      else if w < 212 + L then 6 else if w < 243 + L then 7 else if w < 273 + L then 8
      else if w < 304 + L then 9 else if w < 334 + L then 10 else 11)"

definition DateFromDay :: "int \<Rightarrow> int" where
  "DateFromDay d = DayWithinYear d - month_start (InLeapYear d) (MonthFromDay d) + 1"

definition MakeDay :: "int \<Rightarrow> int \<Rightarrow> int \<Rightarrow> int" where
  "MakeDay year month date =
     (let ym = year + month div 12; mn = nat (month mod 12) in
      DayFromYear ym + month_start (leap_year ym) mn + date - 1)"

definition MakeDate :: "int \<Rightarrow> int \<Rightarrow> int" where
  "MakeDate day time = day * msPerDay + time"

type_synonym timevalue = "int option"

definition TimeClip :: "int \<Rightarrow> timevalue" where
  "TimeClip t = (if \<bar>t\<bar> \<le> 8640000000000000 then Some t else None)"

definition digit_char :: "nat \<Rightarrow> char" where
  "digit_char n = char_of (48 + n)"

fun pad :: "nat \<Rightarrow> nat \<Rightarrow> string" where
  "pad 0 n = []"
| "pad (Suc k) n = pad k (n div 10) @ [digit_char (n mod 10)]"

definition year_string :: "int \<Rightarrow> string" where
  "year_string y =
     (if 0 \<le> y \<and> y \<le> 9999 then pad 4 (nat y)
      else (if y < 0 then ''-'' else ''+'') @ pad 6 (nat \<bar>y\<bar>))"

definition iso_date :: "int \<Rightarrow> string" where
  "iso_date d = year_string (YearFromDay d) @ ''-'' @ pad 2 (MonthFromDay d + 1) @ ''-'' @
     pad 2 (nat (DateFromDay d))"

definition digits_val :: "string \<Rightarrow> nat option" where
  "digits_val s =
     (if s \<noteq> [] \<and> list_all is_digit s
      then Some (foldl (\<lambda>a c. 10 * a + (of_char c - 48)) 0 s) else None)"

definition parse_year :: "string \<Rightarrow> (int \<times> string) option" where
  "parse_year s =
     (case s of
        [] \<Rightarrow> None
      | c # cs \<Rightarrow>
          if c = CHR ''+'' \<or> c = CHR ''-'' then
            (case digits_val (take 6 cs) of
               None \<Rightarrow> None
             | Some n \<Rightarrow>
                 if length cs < 6 \<or> (c = CHR ''-'' \<and> n = 0) then None
                 else Some (if c = CHR ''-'' then - int n else int n, drop 6 cs))
          else
            (case digits_val (take 4 s) of
               None \<Rightarrow> None
             | Some n \<Rightarrow> if length s < 4 then None else Some (int n, drop 4 s)))"

definition parse_two :: "char \<Rightarrow> string \<Rightarrow> (nat \<times> string) option" where
  \<comment> \<open>a separator and two digits\<close>
  "parse_two sep s =
     (case s of
        c # a # b # rest \<Rightarrow>
          if c = sep \<and> is_digit a \<and> is_digit b then Some (the (digits_val [a, b]), rest) else None
      | _ \<Rightarrow> None)"

definition parse_time :: "string \<Rightarrow> int option" where
  \<comment> \<open>nothing, or \<open>THH:mm:ss.sssZ\<close>: milliseconds into the day\<close>
  "parse_time s =
     (if s = [] then Some 0
      else (case parse_two CHR ''T'' s of
        None \<Rightarrow> None
      | Some (h, s1) \<Rightarrow>
         (case parse_two CHR '':'' s1 of
            None \<Rightarrow> None
          | Some (mi, s2) \<Rightarrow>
             (case parse_two CHR '':'' s2 of
                None \<Rightarrow> None
              | Some (sec, s3) \<Rightarrow>
                 (case s3 of
                    [dot, a, b, c, z] \<Rightarrow>
                      if dot = CHR ''.'' \<and> z = CHR ''Z'' \<and> list_all is_digit [a, b, c] \<and>
                         h \<le> 23 \<and> mi \<le> 59 \<and> sec \<le> 59
                      then Some (int h * 3600000 + int mi * 60000 + int sec * 1000 +
                                 int (the (digits_val [a, b, c])))
                      else None
                  | _ \<Rightarrow> None)))))"

definition Date_parse :: "string \<Rightarrow> timevalue option" where
  "Date_parse s =
     (case parse_year s of
        None \<Rightarrow> None
      | Some (y, s1) \<Rightarrow>
         (case parse_two CHR ''-'' s1 of
            None \<Rightarrow> None
          | Some (m, s2) \<Rightarrow>
             (case parse_two CHR ''-'' s2 of
                None \<Rightarrow> None
              | Some (d, s3) \<Rightarrow>
                 (case parse_time s3 of
                    None \<Rightarrow> None
                  | Some ms \<Rightarrow>
                      if 1 \<le> m \<and> m \<le> 12 \<and> 1 \<le> d \<and>
                         int d \<le> month_start (leap_year y) m - month_start (leap_year y) (m - 1)
                      then Some (TimeClip (MakeDate (MakeDay y (int m - 1) (int d)) ms))
                      else None))))"

section \<open>Date helpers of the service\<close>

type_synonym tzone = "int \<Rightarrow> bool \<Rightarrow> int"
  \<comment> \<open>the host's time zone, as ECMAScript's \<open>LocalTZA(t, isUTC)\<close>: the offset of local
      time from UTC in milliseconds, at the UTC time \<open>t\<close> or at the local time \<open>t\<close>\<close>

definition new_Date :: "string \<Rightarrow> timevalue result" where
  "new_Date s = (case Date_parse s of None \<Rightarrow> Inl NotModelled | Some tv \<Rightarrow> Inr tv)"

definition toISODate :: "timevalue \<Rightarrow> string result" where
  \<comment> \<open>\<open>date.toISOString().split('T')[0]\<close>\<close>
  "toISODate tv = (case tv of None \<Rightarrow> Inl RangeError | Some t \<Rightarrow> Inr (iso_date (Day t)))"

definition getDate :: "tzone \<Rightarrow> timevalue \<Rightarrow> int option" where
  "getDate tz tv = map_option (\<lambda>t. DateFromDay (Day (t + tz t True))) tv"

definition setDate :: "tzone \<Rightarrow> timevalue \<Rightarrow> int option \<Rightarrow> timevalue" where
  "setDate tz tv dt =
     (case (tv, dt) of
        (Some t, Some d) \<Rightarrow>
          (let lt = t + tz t True;
               newDate = MakeDate (MakeDay (YearFromDay (Day lt)) (int (MonthFromDay (Day lt))) d)
                           (TimeWithinDay lt)
           in TimeClip (newDate - tz newDate False))
      | _ \<Rightarrow> None)"

definition getUTCDate :: "timevalue \<Rightarrow> int option" where
  "getUTCDate tv = map_option (\<lambda>t. DateFromDay (Day t)) tv"

definition setUTCDate :: "timevalue \<Rightarrow> int option \<Rightarrow> timevalue" where
  "setUTCDate tv dt =
     (case (tv, dt) of
        (Some t, Some d) \<Rightarrow>
          TimeClip (MakeDate (MakeDay (YearFromDay (Day t)) (int (MonthFromDay (Day t))) d)
                      (TimeWithinDay t))
      | _ \<Rightarrow> None)"

definition subtractDays :: "tzone \<Rightarrow> string \<Rightarrow> int \<Rightarrow> string result" where
  "subtractDays tz dateStr days =
     (case new_Date dateStr of
        Inl e \<Rightarrow> Inl e
      | Inr date \<Rightarrow> toISODate (setDate tz date (map_option (\<lambda>d. d - days) (getDate tz date))))"

definition addDays :: "tzone \<Rightarrow> string \<Rightarrow> int \<Rightarrow> string result" where
  "addDays tz dateStr days =
     (case new_Date dateStr of
        Inl e \<Rightarrow> Inl e
      | Inr date \<Rightarrow> toISODate (setDate tz date (map_option (\<lambda>d. d + days) (getDate tz date))))"

definition nextDay :: "string \<Rightarrow> string result" where
  "nextDay dateStr =
     (case new_Date (dateStr @ ''T12:00:00.000Z'') of
        Inl e \<Rightarrow> Inl e
      | Inr d \<Rightarrow> toISODate (setUTCDate d (map_option (\<lambda>x. x + 1) (getUTCDate d))))"

section \<open>Query builder\<close>

definition toLowerCase :: "string \<Rightarrow> string" where
  \<comment> \<open>on the letters A to Z\<close>
  "toLowerCase s =
     map (\<lambda>c. if CHR ''A'' \<le> c \<and> c \<le> CHR ''Z'' then char_of (of_char c + (32::nat)) else c) s"

fun str_includes :: "string \<Rightarrow> string \<Rightarrow> bool" where
  \<comment> \<open>\<open>s.includes(sub)\<close>\<close>
  "str_includes [] sub = (sub = [])"
| "str_includes (c # cs) sub = (take (length sub) (c # cs) = sub \<or> str_includes cs sub)"

fun join :: "string \<Rightarrow> string list \<Rightarrow> string" where
  "join sep [] = []"
| "join sep [x] = x"
| "join sep (x # y # ys) = x @ sep @ join sep (y # ys)"

definition quoted :: "string \<Rightarrow> string" where
  "quoted s = CHR 0x22 # s @ [CHR 0x22]"

definition and_then :: "'a result \<Rightarrow> ('a \<Rightarrow> 'b result) \<Rightarrow> 'b result" where
  \<comment> \<open>sequencing: an exception of the first step ends the computation\<close>
  "and_then r f = (case r of Inl e \<Rightarrow> Inl e | Inr x \<Rightarrow> f x)"

definition buildJql ::
  "tzone \<Rightarrow> int \<Rightarrow> string option \<Rightarrow> string option \<Rightarrow> string option \<Rightarrow> string option \<Rightarrow> bool \<Rightarrow>
   string option \<Rightarrow> string result" where
  \<comment> \<open>\<open>now\<close> is the clock's reading, the time value of \<open>new Date()\<close>\<close>
  "buildJql tz now baseJql from to projectKey expandWorklogDateRange username =
     (let jql = (case baseJql of None \<Rightarrow> [] | Some b \<Rightarrow> trim b);
          filters1 =
            (if truthy username \<and> username \<noteq> Some ''undefined''
             then [''worklogAuthor = '' @ the username] else []);
          filters2 = filters1 @
            (if truthy projectKey \<and> projectKey \<noteq> Some ''undefined'' \<and>
                \<not> str_includes (toLowerCase jql) ''project''
             then [''project = '' @ the projectKey] else [])
      in and_then
        (if truthy from \<or> truthy to then
           and_then
             (if truthy from then
                (if expandWorklogDateRange
                 then and_then (subtractDays tz (the from) 30)
                        (\<lambda>fromExpanded. Inr [''worklogDate >= '' @ quoted fromExpanded])
                 else Inr [''worklogDate >= '' @ quoted (the from)])
              else Inr [])
             (\<lambda>fromFilter. and_then
                (if truthy to then
                   (if expandWorklogDateRange
                    then and_then (addDays tz (the to) 30)
                           (\<lambda>toExpanded. Inr [''worklogDate <= '' @ quoted toExpanded])
                    else Inr [''worklogDate <= '' @ quoted (the to)])
                 else Inr [])
                (\<lambda>toFilter. and_then (toISODate (TimeClip now))
                   (\<lambda>today. and_then
                      (if truthy from then subtractDays tz (the from) 365
                       else subtractDays tz today 365)
                      (\<lambda>createdLimit.
                         Inr (filters2 @ fromFilter @ toFilter @
                              [''created >= '' @ quoted createdLimit])))))
         else if jql = [] then
           and_then (toISODate (TimeClip now))
             (\<lambda>today. and_then (subtractDays tz today 365)
                (\<lambda>oneYearAgo.
                   Inr (filters2 @ [''worklogDate >= -30d'', ''created >= '' @ quoted oneYearAgo])))
         else Inr filters2)
        (\<lambda>filters.
           let jql1 = (if filters \<noteq> []
                       then (if jql \<noteq> [] then jql @ '' AND '' @ join '' AND '' filters
                             else join '' AND '' filters)
                       else jql)
           in Inr (if jql1 \<noteq> [] then jql1 @ '' ORDER BY created DESC'' else jql1)))"

section \<open>Calls to the upstream API\<close>

definition handle_http :: "string \<Rightarrow> error \<Rightarrow> error" where
  \<comment> \<open>the \<open>catch\<close> blocks of \<open>getCloudId\<close> and \<open>getIssues\<close>, applied to whatever was thrown
      inside the \<open>try\<close>\<close>
  "handle_http msg e =
     (if response_status e = Some 401 \<or> response_status e = Some 403
      then UnauthorizedException ''Invalid or expired access token''
      else Error msg)"

definition has_read_scope :: "resource \<Rightarrow> bool" where
  \<comment> \<open>\<open>r.scopes?.includes('read:jira-work')\<close>\<close>
  "has_read_scope r = (case scopes r of None \<Rightarrow> False | Some sc \<Rightarrow> ''read:jira-work'' \<in> set sc)"

definition getCloudId :: "upstream \<Rightarrow> string \<Rightarrow> string result" where
  "getCloudId up accessToken =
     (case (case accessible_resources up accessToken of
              Inl st \<Rightarrow> Inl (HttpError st)
            | Inr resources \<Rightarrow>
                if resources = None \<or> resources = Some []
                then Inl (UnauthorizedException ''No accessible Jira resources found for this token'')
                else (case find has_read_scope (the resources) of
                        None \<Rightarrow> Inl (UnauthorizedException ''No Jira resource found with required scopes'')
                      | Some jiraResource \<Rightarrow> Inr (res_id jiraResource))) of
        Inl e \<Rightarrow> Inl (handle_http ''Failed to get cloudId'' e)
      | Inr cloudId \<Rightarrow> Inr cloudId)"

definition getIssues ::
  "upstream \<Rightarrow> string \<Rightarrow> string \<Rightarrow> string \<Rightarrow> string list \<Rightarrow> issue list result \<times> string list" where
  \<comment> \<open>\<open>sent\<close> is the list of queries posted to the search endpoint so far\<close>
  "getIssues up jql accessToken cloudId sent =
     ((case search_jql up (length sent) cloudId accessToken jql of
         Inl st \<Rightarrow> Inl (handle_http ''Jira API error'' (HttpError st))
       | Inr data \<Rightarrow> Inr (case data of None \<Rightarrow> [] | Some found \<Rightarrow> found)),
      sent @ [jql])"

partial_function (option) getWorklogs_pages ::
  "upstream \<Rightarrow> string \<Rightarrow> string \<Rightarrow> string \<Rightarrow> nat \<Rightarrow> worklog list \<Rightarrow> worklog list result option" where
  "getWorklogs_pages up issueKey accessToken cloudId startAt allWorklogs =
     (case issue_worklog up cloudId accessToken issueKey startAt of
        Inl st \<Rightarrow>
          Some (if st = Some 401 \<or> st = Some 403
                then Inl (UnauthorizedException ''Invalid or expired access token'')
                else Inr [])
      | Inr page \<Rightarrow>
          if p_total page \<le> length (allWorklogs @ p_worklogs page) \<or>
             length (p_worklogs page) < 1000
          then Some (Inr (allWorklogs @ p_worklogs page))
          else getWorklogs_pages up issueKey accessToken cloudId (startAt + 1000)
                 (allWorklogs @ p_worklogs page))"

definition getWorklogs :: "upstream \<Rightarrow> string \<Rightarrow> string \<Rightarrow> string \<Rightarrow> worklog list result option" where
  \<comment> \<open>\<open>None\<close>: the pagination loop never ends\<close>
  "getWorklogs up issueKey accessToken cloudId =
     getWorklogs_pages up issueKey accessToken cloudId 0 []"

section \<open>Range-split issue fetcher\<close>

fun mergeIssues :: "issue list \<times> string set \<Rightarrow> issue list \<Rightarrow> issue list \<times> string set" where
  \<comment> \<open>the inner \<open>for\<close> loop over one day's issues, on \<open>(allIssues, uniqueIssueKeys)\<close>\<close>
  "mergeIssues acc [] = acc"
| "mergeIssues (allIssues, uniqueIssueKeys) (i # rest) =
     (if key i \<notin> uniqueIssueKeys
      then mergeIssues (allIssues @ [i], insert (key i) uniqueIssueKeys) rest
      else mergeIssues (allIssues, uniqueIssueKeys) rest)"

definition day_rank :: "string \<Rightarrow> nat" where
  \<comment> \<open>how many days a date string lies before the last day a \<open>Date\<close> can hold\<close>
  "day_rank dateStr =
     (case Date_parse (dateStr @ ''T12:00:00.000Z'') of
        Some (Some t) \<Rightarrow> nat (100000001 - Day t)
      | _ \<Rightarrow> 0)"

function splitLoop ::
  "tzone \<Rightarrow> int \<Rightarrow> upstream \<Rightarrow> string option \<Rightarrow> string option \<Rightarrow> string option \<Rightarrow> string \<Rightarrow> string \<Rightarrow>
   string \<Rightarrow> string \<Rightarrow> issue list \<times> string set \<Rightarrow> string list \<Rightarrow> issue list result \<times> string list" where
  "splitLoop tz now up baseJql projectKey username accessToken cloudId effectiveTo dateStr acc sent =
     (if dateStr \<le> effectiveTo then
        (case buildJql tz now baseJql (Some dateStr) (Some dateStr) projectKey False username of
           Inl e \<Rightarrow> (Inl e, sent)
         | Inr jql \<Rightarrow>
            (case getIssues up jql accessToken cloudId sent of
               (Inl e, sent') \<Rightarrow> (Inl e, sent')
             | (Inr found, sent') \<Rightarrow>
                 if dateStr = effectiveTo then (Inr (fst (mergeIssues acc found)), sent')
                 else (case nextDay dateStr of
                         Inl e \<Rightarrow> (Inl e, sent')
                       | Inr next \<Rightarrow>
                           splitLoop tz now up baseJql projectKey username accessToken cloudId
                             effectiveTo next (mergeIssues acc found) sent')))
      else (Inr (fst acc), sent))"
  by pat_completeness auto

definition getIssuesWithDateRangeSplit ::
  "tzone \<Rightarrow> int \<Rightarrow> upstream \<Rightarrow> string option \<Rightarrow> string \<Rightarrow> string \<Rightarrow> string option \<Rightarrow> string \<Rightarrow> string \<Rightarrow>
   string option \<Rightarrow> string list \<Rightarrow> issue list result \<times> string list" where
  "getIssuesWithDateRangeSplit tz now up baseJql from to projectKey accessToken cloudId username sent =
     (case subtractDays tz from 7 of
        Inl e \<Rightarrow> (Inl e, sent)
      | Inr effectiveFrom \<Rightarrow>
         (case addDays tz to 7 of
            Inl e \<Rightarrow> (Inl e, sent)
          | Inr effectiveTo \<Rightarrow>
              splitLoop tz now up baseJql projectKey username accessToken cloudId
                effectiveTo effectiveFrom ([], {}) sent))"

section \<open>Hours formatting\<close>

text \<open>
  \<open>(seconds / 3600).toFixed(2)\<close>. The quotient is a double: the quotient of the two
  integers rounded to 53 significant bits, ties to even, written here as a pair \<open>(m, e)\<close>
  standing for \<open>m * 2^e\<close>. \<open>toFixed(2)\<close> takes the integer \<open>n\<close> nearest to a hundred times
  that double (the larger one on a tie) and prints \<open>n\<close> with a point before its last two
  digits.
\<close>

definition round_half_even :: "int \<Rightarrow> int \<Rightarrow> int" where
  \<comment> \<open>the integer nearest to \<open>num / den\<close>, for \<open>den > 0\<close>\<close>
  "round_half_even num den =
     (let q = num div den; r = num mod den in
      if 2 * r < den then q else if den < 2 * r then q + 1
      else if even q then q else q + 1)"

definition scaled :: "nat \<Rightarrow> nat \<Rightarrow> int \<Rightarrow> int \<times> int" where
  \<comment> \<open>\<open>a / (b * 2^e)\<close> as a fraction of integers\<close>
  "scaled a b e = (if 0 \<le> e then (int a, int b * 2 ^ nat e) else (int a * 2 ^ nat (- e), int b))"

definition double_div :: "nat \<Rightarrow> nat \<Rightarrow> int \<times> int" where
  \<comment> \<open>the double \<open>a / b\<close> for integers \<open>a\<close> and \<open>b > 0\<close> below \<open>2^53\<close>\<close>
  "double_div a b =
     (if a = 0 then (0, 0)
      else let e0 = bitlen (int a) - bitlen (int b) - 52;
               e = (if 2 ^ 52 * snd (scaled a b e0) \<le> fst (scaled a b e0) then e0 else e0 - 1)
           in (round_half_even (fst (scaled a b e)) (snd (scaled a b e)), e))"

fun dec :: "nat \<Rightarrow> string" where
  \<comment> \<open>the decimal digits of a number\<close>
  "dec n = (if n < 10 then [digit_char n] else dec (n div 10) @ [digit_char (n mod 10)])"

declare dec.simps [simp del]

definition toFixed2_n :: "int \<times> int \<Rightarrow> nat" where
  \<comment> \<open>the integer nearest to \<open>100 * m * 2^e\<close>, the larger one on a tie\<close>
  "toFixed2_n x =
     (case x of (m, e) \<Rightarrow>
        nat (if 0 \<le> e then 100 * m * 2 ^ nat e
             else (200 * m + 2 ^ nat (- e)) div 2 ^ nat (1 - e)))"

definition toFixed2 :: "int \<times> int \<Rightarrow> string" where
  "toFixed2 x = dec (toFixed2_n x div 100) @ ''.'' @ pad 2 (toFixed2_n x mod 100)"

section \<open>Aggregation\<close>

definition object_prototype_names :: "string list" where
  \<comment> \<open>the properties every object inherits: \<open>worklogsByUser[name]\<close> is truthy for them
      although nothing was stored, so no bucket is created and \<open>.issues.has\<close> fails\<close>
  "object_prototype_names =
     [''constructor'', ''__proto__'', ''hasOwnProperty'', ''isPrototypeOf'',
      ''propertyIsEnumerable'', ''toLocaleString'', ''toString'', ''valueOf'',
      ''__defineGetter__'', ''__defineSetter__'', ''__lookupGetter__'', ''__lookupSetter__'']"

definition add_to_issue ::
  "issue \<Rightarrow> worklog \<Rightarrow> (string \<times> issue \<times> worklog list) list \<Rightarrow> (string \<times> issue \<times> worklog list) list" where
  \<comment> \<open>\<open>issues.set(issue.key, {issue, worklogs: []})\<close> on first sight of the key, then
      \<open>issues.get(issue.key).worklogs.push(w)\<close>\<close>
  "add_to_issue i w m =
     (case map_of m (key i) of
        None \<Rightarrow> m @ [(key i, (i, [w]))]
      | Some _ \<Rightarrow> map (\<lambda>(k, i0, ws). if k = key i then (k, i0, ws @ [w]) else (k, i0, ws)) m)"

definition add_to_user ::
  "string \<Rightarrow> issue \<Rightarrow> worklog \<Rightarrow> (string \<times> bucket) list \<Rightarrow> (string \<times> bucket) list" where
  "add_to_user u i w st =
     (let st1 = (case map_of st u of
                   None \<Rightarrow> st @ [(u, \<lparr>b_seconds = 0, b_issues = []\<rparr>)]
                 | Some _ \<Rightarrow> st)
      in map (\<lambda>(k, b). if k = u
                then (k, \<lparr>b_seconds = b_seconds b + timeSpentSeconds w,
                          b_issues = add_to_issue i w (b_issues b)\<rparr>)
                else (k, b)) st1)"

definition process_worklog ::
  "string option \<Rightarrow> string option \<Rightarrow> string option \<Rightarrow> issue \<Rightarrow> worklog \<Rightarrow> (string \<times> bucket) list \<Rightarrow>
   (string \<times> bucket) list result" where
  \<comment> \<open>the body of the loop over an issue's worklogs, on \<open>worklogsByUser\<close>\<close>
  "process_worklog from to username i w st =
     (if \<not> isWorklogInDateRange w from to then Inr st
      else let authorEmail = (if truthy (emailAddress (author w)) then emailAddress (author w)
                              else displayName (author w)) in
        if \<not> truthy authorEmail then Inr st
        else if truthy username \<and> accountId (author w) \<noteq> username then Inr st
        else if the authorEmail \<in> set object_prototype_names then Inl TypeError
        else Inr (add_to_user (the authorEmail) i w st))"

fun process_worklogs ::
  "string option \<Rightarrow> string option \<Rightarrow> string option \<Rightarrow> issue \<Rightarrow> worklog list \<Rightarrow> (string \<times> bucket) list \<Rightarrow>
   (string \<times> bucket) list result" where
  "process_worklogs from to username i [] st = Inr st"
| "process_worklogs from to username i (w # ws) st =
     (case process_worklog from to username i w st of
        Inl e \<Rightarrow> Inl e
      | Inr st' \<Rightarrow> process_worklogs from to username i ws st')"

fun process_issues ::
  "string option \<Rightarrow> string option \<Rightarrow> string option \<Rightarrow> (string \<rightharpoonup> worklog list) \<Rightarrow> issue list \<Rightarrow>
   (string \<times> bucket) list \<Rightarrow> (string \<times> bucket) list result" where
  \<comment> \<open>the loop over the issues; an issue without an entry has no worklogs (\<open>|| []\<close>)\<close>
  "process_issues from to username worklogsByIssue [] st = Inr st"
| "process_issues from to username worklogsByIssue (i # rest) st =
     (case process_worklogs from to username i
             (case worklogsByIssue (key i) of None \<Rightarrow> [] | Some ws \<Rightarrow> ws) st of
        Inl e \<Rightarrow> Inl e
      | Inr st' \<Rightarrow> process_issues from to username worklogsByIssue rest st')"

definition is_array_index :: "string \<Rightarrow> bool" where
  \<comment> \<open>a property name that is a canonical array index: \<open>Object.entries\<close> lists these
      first, in numeric order\<close>
  "is_array_index s =
     ((s = ''0'' \<or> (s \<noteq> [] \<and> list_all is_digit s \<and> hd s \<noteq> CHR ''0'')) \<and> length s \<le> 10 \<and>
      the (digits_val s) \<le> 4294967294)"

definition object_entries :: "(string \<times> 'a) list \<Rightarrow> (string \<times> 'a) list" where
  \<comment> \<open>\<open>Object.entries\<close> of an object whose properties were created in the order given\<close>
  "object_entries kvs =
     sort_key (\<lambda>(k, v). the (digits_val k)) (filter (\<lambda>(k, v). is_array_index k) kvs) @
     filter (\<lambda>(k, v). \<not> is_array_index k) kvs"

definition format_issue :: "string \<times> issue \<times> worklog list \<Rightarrow> out_issue" where
  "format_issue item =
     (case item of (k, i, ws) \<Rightarrow>
        \<lparr>oi_id = i_id i, oi_key = key i,
         oi_summary = (case i_fields i of None \<Rightarrow> []
                       | Some f \<Rightarrow> (case f_summary f of None \<Rightarrow> [] | Some s \<Rightarrow> s)),
         oi_assignee = (case i_fields i of None \<Rightarrow> None | Some f \<Rightarrow> f_assignee f),
         oi_worklog = ws\<rparr>)"

definition format_user :: "string \<times> bucket \<Rightarrow> user_hours" where
  "format_user entry =
     (case entry of (u, data) \<Rightarrow>
        \<lparr>user = u,
         hours = toFixed2 (double_div (b_seconds data) 3600),
         r_worklogs = concat (map (\<lambda>(k, i, ws). ws) (b_issues data)),
         r_issues = map format_issue (b_issues data)\<rparr>)"

section \<open>The request\<close>

definition needs_fetch :: "issue \<Rightarrow> bool" where
  \<comment> \<open>the issue goes to \<open>issuesNeedingFullWorklogs\<close>: no embedded worklogs, or fewer
      than their declared total\<close>
  "needs_fetch i =
     (case i_fields i of
        None \<Rightarrow> True
      | Some f \<Rightarrow> (case f_worklog f of
                     None \<Rightarrow> True
                   | Some wl \<Rightarrow> \<not> p_total wl \<le> length (p_worklogs wl)))"

fun embedded :: "issue list \<Rightarrow> (string \<rightharpoonup> worklog list) \<Rightarrow> (string \<rightharpoonup> worklog list)" where
  \<comment> \<open>\<open>worklogsByIssue\<close> after the first loop: the complete embedded lists\<close>
  "embedded [] m = m"
| "embedded (i # rest) m =
     embedded rest
       (case i_fields i of
          None \<Rightarrow> m
        | Some f \<Rightarrow> (case f_worklog f of
                       None \<Rightarrow> m
                     | Some wl \<Rightarrow> if p_total wl \<le> length (p_worklogs wl)
                                  then m(key i \<mapsto> p_worklogs wl) else m))"

fun chunks10 :: "'a list \<Rightarrow> 'a list list" where
  \<comment> \<open>the batches \<open>slice(i, i + CONCURRENCY_LIMIT)\<close>\<close>
  "chunks10 xs = (if xs = [] then [] else take 10 xs # chunks10 (drop 10 xs))"

declare chunks10.simps [simp del]

definition promise_all :: "'a result option list \<Rightarrow> 'a list result option" where
  \<comment> \<open>\<open>Promise.all\<close>: rejected as soon as one promise is (here every rejection is the same
      exception), pending for ever when none is rejected and one never settles\<close>
  "promise_all rs =
     (case List.map_filter (\<lambda>r. case r of Some (Inl e) \<Rightarrow> Some e | _ \<Rightarrow> None) rs of
        e # _ \<Rightarrow> Some (Inl e)
      | [] \<Rightarrow> if None \<in> set rs then None
              else Some (Inr (List.map_filter (\<lambda>r. case r of Some (Inr x) \<Rightarrow> Some x | _ \<Rightarrow> None) rs)))"

fun fetch_batches ::
  "upstream \<Rightarrow> string \<Rightarrow> string \<Rightarrow> issue list list \<Rightarrow> (string \<rightharpoonup> worklog list) \<Rightarrow>
   (string \<rightharpoonup> worklog list) result option" where
  "fetch_batches up accessToken cloudId [] m = Some (Inr m)"
| "fetch_batches up accessToken cloudId (batch # rest) m =
     (case promise_all (map (\<lambda>i. getWorklogs up (key i) accessToken cloudId) batch) of
        None \<Rightarrow> None
      | Some (Inl e) \<Rightarrow> Some (Inl e)
      | Some (Inr results) \<Rightarrow>
          fetch_batches up accessToken cloudId rest
            (fold (\<lambda>(k, ws) m'. m'(k \<mapsto> ws)) (zip (map key batch) results) m))"

definition find_issues ::
  "tzone \<Rightarrow> int \<Rightarrow> upstream \<Rightarrow> string \<Rightarrow> string \<Rightarrow> string option \<Rightarrow> string option \<Rightarrow> string option \<Rightarrow>
   string option \<Rightarrow> string option \<Rightarrow> string list \<Rightarrow> issue list result \<times> string list" where
  \<comment> \<open>the issue search of \<open>getHoursByUser\<close>: split by day when both dates are given\<close>
  "find_issues tz now up accessToken cloudId baseJql from to projectKey username sent =
     (if truthy from \<and> truthy to
      then getIssuesWithDateRangeSplit tz now up baseJql (the from) (the to) projectKey
             accessToken cloudId username sent
      else (case buildJql tz now baseJql from to projectKey True username of
              Inl e \<Rightarrow> (Inl e, sent)
            | Inr jql \<Rightarrow> getIssues up jql accessToken cloudId sent))"

definition fetch_worklogs ::
  "upstream \<Rightarrow> string \<Rightarrow> string \<Rightarrow> issue list \<Rightarrow> (string \<rightharpoonup> worklog list) result option" where
  \<comment> \<open>\<open>worklogsByIssue\<close>: the embedded lists, then the fetched ones, ten issues at a time\<close>
  "fetch_worklogs up accessToken cloudId issues =
     fetch_batches up accessToken cloudId (chunks10 (filter needs_fetch issues))
       (embedded issues Map.empty)"

definition aggregate ::
  "string option \<Rightarrow> string option \<Rightarrow> string option \<Rightarrow> issue list \<Rightarrow> (string \<rightharpoonup> worklog list) \<Rightarrow>
   user_hours list result" where
  \<comment> \<open>grouping by user and issue, then the response's \<open>worklogs\<close> list\<close>
  "aggregate from to username issues worklogsByIssue =
     (case process_issues from to username worklogsByIssue issues [] of
        Inl e \<Rightarrow> Inl e
      | Inr worklogsByUser \<Rightarrow> Inr (map format_user (object_entries worklogsByUser)))"

definition getHoursByUser ::
  "tzone \<Rightarrow> int \<Rightarrow> upstream \<Rightarrow> string \<Rightarrow> options \<Rightarrow> string list \<Rightarrow>
   (user_hours list result \<times> string list) option" where
  \<comment> \<open>the result is the response's \<open>worklogs\<close> list, with the searches sent; \<open>None\<close> when a
      worklog pagination never ends\<close>
  "getHoursByUser tz now up accessToken opts sent =
     (let baseJql = o_jql opts; username = o_username opts;
          from = normalizeToYYYYMMDD (o_from opts);
          to = normalizeToYYYYMMDD (o_to opts);
          projectKey = (if o_projectKey opts = Some ''undefined'' then None else o_projectKey opts)
      in case getCloudId up accessToken of
           Inl e \<Rightarrow> Some (Inl e, sent)
         | Inr cloudId \<Rightarrow>
            (case find_issues tz now up accessToken cloudId baseJql from to projectKey username sent of
               (Inl e, sent') \<Rightarrow> Some (Inl e, sent')
             | (Inr issues, sent') \<Rightarrow>
                (case fetch_worklogs up accessToken cloudId issues of
                   None \<Rightarrow> None
                 | Some (Inl e) \<Rightarrow> Some (Inl e, sent')
                 | Some (Inr worklogsByIssue) \<Rightarrow>
                     Some (aggregate from to username issues worklogsByIssue, sent'))))"

section \<open>Vocabulary of the statements\<close>

text \<open>
  The issues a search returned, the results of a run of searches in order, and an
  upstream used in the examples.
\<close>

definition search_result :: "upstream \<Rightarrow> string \<Rightarrow> string \<Rightarrow> nat \<Rightarrow> string \<Rightarrow> issue list" where
  "search_result up accessToken cloudId n q =
     (case search_jql up n cloudId accessToken q of Inr (Some found) \<Rightarrow> found | _ \<Rightarrow> [])"

fun day_results :: "upstream \<Rightarrow> string \<Rightarrow> string \<Rightarrow> nat \<Rightarrow> string list \<Rightarrow> issue list list" where
  "day_results up accessToken cloudId n [] = []"
| "day_results up accessToken cloudId n (q # qs) =
     search_result up accessToken cloudId n q # day_results up accessToken cloudId (Suc n) qs"

definition example_upstream :: upstream where
  "example_upstream =
     \<lparr>accessible_resources =
        (\<lambda>tok. Inr (Some [\<lparr>res_id = ''cloud-1'', scopes = Some [''read:jira-work'']\<rparr>])),
      search_jql =
        (\<lambda>n cid tok q.
           if n = 0 then Inr (Some [\<lparr>i_id = ''10001'', key = ''SS-1'', i_fields = None\<rparr>])
           else if n = 1 then Inr (Some [\<lparr>i_id = ''10009'', key = ''SS-1'', i_fields = None\<rparr>,
                                         \<lparr>i_id = ''10002'', key = ''SS-2'', i_fields = None\<rparr>])
           else Inr None),
      issue_worklog = (\<lambda>cid tok k startAt. Inl (Some 500))\<rparr>"

definition example_issue :: issue where
  "example_issue = \<lparr>i_id = ''10001'', key = ''SS-1'', i_fields = None\<rparr>"

definition example_worklog :: worklog where
  \<comment> \<open>an hour by Ana, with no \<open>started\<close> date\<close>
  "example_worklog =
     \<lparr>author = \<lparr>accountId = Some ''u-1'', emailAddress = Some ''ana@example.com'',
                 displayName = Some ''Ana''\<rparr>,
      timeSpentSeconds = 3600, started = None, created = Some ''2024-01-07T08:00:00.000+0000''\<rparr>"

section \<open>Properties of date normalisation and of the worklog date filter\<close>

lemma split_on_nosep: "\<forall>c\<in>set xs. \<not> sep c \<Longrightarrow> split_on sep xs = [xs]"
  by (induction xs) auto

lemma split_on_append:
  "\<forall>c\<in>set xs. \<not> sep c \<Longrightarrow> sep c \<Longrightarrow> split_on sep (xs @ c # rest) = xs # split_on sep rest"
  by (induction xs) (auto split: list.splits)

lemma digit_not_sep: "is_digit c \<Longrightarrow> \<not> is_date_sep c"
  by (auto simp: is_digit_def is_date_sep_def)

lemma digit_not_space: "is_digit c \<Longrightarrow> \<not> is_space c"
  unfolding is_digit_def is_space_def less_eq_char_def by auto

lemma trim_id: 
  assumes "s \<noteq> []" "\<not> is_space (hd s)" "\<not> is_space (last s)"
  shows "trim s = s"
proof -
  from assms have 1: "dropWhile is_space s = s" by (cases s) auto
  from assms have "rev s = last s # rev (butlast s)"
    by (metis append_butlast_last_id rev.simps(2) rev_rev_ident rev_singleton_conv rev_append)
  moreover from assms have "dropWhile is_space (last s # rev (butlast s)) = last s # rev (butlast s)"
    by simp
  ultimately have "dropWhile is_space (rev s) = rev s" by metis
  with 1 show ?thesis by (simp add: trim_def)
qed

lemma iso_trim: assumes "matches_iso_date s" shows "trim s = s"
proof -
  from assms have len: "length s = 10" and d1: "list_all is_digit (take 4 s)" and d2: "list_all is_digit (drop 8 s)"
    by (auto simp: matches_iso_date_def)
  from len have ne: "s \<noteq> []" by auto
  from len d1 have "is_digit (hd s)" by (cases s) auto
  moreover have "is_digit (last s)"
  proof -
    from len have "drop 8 s \<noteq> []" by simp
    then have "last (drop 8 s) \<in> set (drop 8 s)" by (rule last_in_set)
    moreover from len have "last (drop 8 s) = last s" by simp
    ultimately show ?thesis using d2 by (simp add: list_all_iff)
  qed
  ultimately show ?thesis using ne by (intro trim_id) (auto dest: digit_not_space)
qed

lemma dmy_not_iso:
  assumes "d \<noteq> []" "length d \<le> 2" "is_date_sep a"
  shows "\<not> matches_iso_date (d @ a # rest)"
proof
  assume m: "matches_iso_date (d @ a # rest)"
  then have "list_all is_digit (take 4 (d @ a # rest))" by (simp add: matches_iso_date_def)
  moreover from assms have "a \<in> set (take 4 (d @ a # rest))"
    by (cases d rule: list.exhaust; cases "tl d") (auto)
  ultimately have "is_digit a" by (simp add: list_all_iff)
  with assms show False by (auto dest: digit_not_sep)
qed


lemma normalize_dmy:
  assumes d: "d \<noteq> []" "length d \<le> 2" "list_all is_digit d"
      and m: "length m \<le> 2" "list_all is_digit m"
      and y: "length y = 4" "list_all is_digit y"
      and sep: "is_date_sep a" "is_date_sep b"
  shows "normalizeToYYYYMMDD (Some (d @ a # m @ b # y)) =
         Some (y @ ''-'' @ padStart2 m @ ''-'' @ padStart2 d)"
proof -
  let ?s = "d @ a # m @ b # y"
  from d have hd: "is_digit (hd ?s)" by (cases d) auto
  from y have "y \<noteq> []" by auto
  with y have "is_digit (last ?s)" by (simp add: list_all_iff)
  with hd have t: "trim ?s = ?s" by (intro trim_id) (auto dest: digit_not_space)
  from d sep have iso: "\<not> matches_iso_date ?s" by (intro dmy_not_iso) auto
  have nd: "\<forall>c\<in>set d. \<not> is_date_sep c" and nm: "\<forall>c\<in>set m. \<not> is_date_sep c"
    and ny: "\<forall>c\<in>set y. \<not> is_date_sep c"
    using d m y by (auto simp: list_all_iff dest: digit_not_sep)
  have "split_on is_date_sep ?s = [d, m, y]"
    using nd nm ny sep by (simp add: split_on_append split_on_nosep)
  with t iso d m y show ?thesis by (simp add: normalizeToYYYYMMDD_def)
qed

text \<open>
  Claim C8, as the code has it. \<open>normalizeToYYYYMMDD\<close> never fails; \<open>undefined\<close> and the
  empty string come back as they are. A string matching \<open>YYYY-MM-DD\<close> is returned unchanged.
  A day and a month of one or two digits and a year of four digits, separated by \<open>-\<close> or
  \<open>/\<close>, are rewritten to \<open>YYYY-MM-DD\<close> with day and month padded to two digits. In
  general the input is trimmed first: when the trimmed text matches \<open>YYYY-MM-DD\<close> the
  trimmed text is returned; otherwise, when it splits at \<open>-\<close> and \<open>/\<close> into three pieces
  of lengths at most 2, at most 2 and exactly 4 (digits or not), the pieces are reordered
  and padded; every other input is returned trimmed.
\<close>

theorem normalizeToYYYYMMDD_cases:
  "normalizeToYYYYMMDD None = None \<and> normalizeToYYYYMMDD (Some []) = Some [] \<and>
   (matches_iso_date s \<longrightarrow> normalizeToYYYYMMDD (Some s) = Some s) \<and>
   (d \<noteq> [] \<and> length d \<le> 2 \<and> list_all is_digit d \<and> m \<noteq> [] \<and> length m \<le> 2 \<and>
    list_all is_digit m \<and> length y = 4 \<and> list_all is_digit y \<and> is_date_sep a \<and> is_date_sep b \<longrightarrow>
      normalizeToYYYYMMDD (Some (d @ a # m @ b # y)) =
        Some (y @ ''-'' @ padStart2 m @ ''-'' @ padStart2 d) \<and>
      length (padStart2 m) = 2 \<and> length (padStart2 d) = 2) \<and>
   (s \<noteq> [] \<longrightarrow>
      (\<exists>r. normalizeToYYYYMMDD (Some s) = Some r) \<and>
      (matches_iso_date (trim s) \<longrightarrow> normalizeToYYYYMMDD (Some s) = Some (trim s)) \<and>
      (\<not> matches_iso_date (trim s) \<longrightarrow>
         (\<forall>p1 p2 p3. split_on is_date_sep (trim s) = [p1, p2, p3] \<and>
              length p1 \<le> 2 \<and> length p2 \<le> 2 \<and> length p3 = 4 \<longrightarrow>
            normalizeToYYYYMMDD (Some s) = Some (p3 @ ''-'' @ padStart2 p2 @ ''-'' @ padStart2 p1)) \<and>
         ((\<nexists>p1 p2 p3. split_on is_date_sep (trim s) = [p1, p2, p3] \<and>
              length p1 \<le> 2 \<and> length p2 \<le> 2 \<and> length p3 = 4) \<longrightarrow>
            normalizeToYYYYMMDD (Some s) = Some (trim s))))"
proof -
  have 1: "normalizeToYYYYMMDD None = None \<and> normalizeToYYYYMMDD (Some []) = Some []"
    by (simp add: normalizeToYYYYMMDD_def)
  have 2: "matches_iso_date s \<longrightarrow> normalizeToYYYYMMDD (Some s) = Some s"
  proof
    assume i: "matches_iso_date s"
    then have "s \<noteq> []" by (auto simp: matches_iso_date_def)
    with i show "normalizeToYYYYMMDD (Some s) = Some s"
      by (simp add: normalizeToYYYYMMDD_def iso_trim)
  qed
  have 3: "d \<noteq> [] \<and> length d \<le> 2 \<and> list_all is_digit d \<and> m \<noteq> [] \<and> length m \<le> 2 \<and>
    list_all is_digit m \<and> length y = 4 \<and> list_all is_digit y \<and> is_date_sep a \<and> is_date_sep b \<longrightarrow>
      normalizeToYYYYMMDD (Some (d @ a # m @ b # y)) =
        Some (y @ ''-'' @ padStart2 m @ ''-'' @ padStart2 d) \<and>
      length (padStart2 m) = 2 \<and> length (padStart2 d) = 2"
    by (auto simp: normalize_dmy padStart2_def)
  have 4: "s \<noteq> [] \<longrightarrow>
      (\<exists>r. normalizeToYYYYMMDD (Some s) = Some r) \<and>
      (matches_iso_date (trim s) \<longrightarrow> normalizeToYYYYMMDD (Some s) = Some (trim s)) \<and>
      (\<not> matches_iso_date (trim s) \<longrightarrow>
         (\<forall>p1 p2 p3. split_on is_date_sep (trim s) = [p1, p2, p3] \<and>
              length p1 \<le> 2 \<and> length p2 \<le> 2 \<and> length p3 = 4 \<longrightarrow>
            normalizeToYYYYMMDD (Some s) = Some (p3 @ ''-'' @ padStart2 p2 @ ''-'' @ padStart2 p1)) \<and>
         ((\<nexists>p1 p2 p3. split_on is_date_sep (trim s) = [p1, p2, p3] \<and>
              length p1 \<le> 2 \<and> length p2 \<le> 2 \<and> length p3 = 4) \<longrightarrow>
            normalizeToYYYYMMDD (Some s) = Some (trim s)))"
    by (auto simp: normalizeToYYYYMMDD_def Let_def split: list.splits)
  from 1 2 3 4 show ?thesis by blast
qed

theorem normalizeToYYYYMMDD_cases_witness:
  "normalizeToYYYYMMDD (Some ''2024-01-05'') = Some ''2024-01-05'' \<and>
   normalizeToYYYYMMDD (Some ''5/1/2024'') = Some ''2024-01-05'' \<and>
   normalizeToYYYYMMDD (Some ''  next week '') = Some ''next week''"
  using normalizeToYYYYMMDD_cases [of "''2024-01-05''" "''5''" "''1''" "''2024''" "CHR ''/''" "CHR ''/''"]
    normalizeToYYYYMMDD_cases [of "''  next week ''" "''5''" "''1''" "''2024''" "CHR ''/''" "CHR ''/''"]
  by (simp add: matches_iso_date_def is_digit_def is_date_sep_def padStart2_def trim_def is_space_def)

text \<open>
  Claim C8 as stated fails: an input of another shape is not always returned unchanged.
  Surrounding white space is removed, and three pieces of the right lengths are reordered
  even when they are not digits.
\<close>

theorem normalizeToYYYYMMDD_other_shape_counterexample:
  "normalizeToYYYYMMDD (Some '' next week '') \<noteq> Some '' next week '' \<and>
   normalizeToYYYYMMDD (Some ''ab-cd-efgh'') = Some ''efgh-cd-ab''"
  by (simp add: normalizeToYYYYMMDD_def matches_iso_date_def is_digit_def is_date_sep_def
      padStart2_def trim_def is_space_def)

text \<open>
  Claim C3. The date filter reads only \<open>started\<close>: a worklog whose \<open>started\<close> has the date
  part \<open>2024-01-05\<close> is included when \<open>to\<close> is \<open>2024-01-05\<close> and \<open>from\<close> is absent or not
  after that day, and excluded when \<open>to\<close> is \<open>2024-01-04\<close>, whatever \<open>created\<close> holds; the
  result never depends on \<open>created\<close>; and with a bound given the test is
  \<open>from \<le> day \<le> to\<close>, inclusive at both ends, in the lexicographic order of strings, on
  the part of \<open>started\<close> before its first \<open>T\<close>.
\<close>

theorem isWorklogInDateRange_started_only:
  "(takeWhile (\<lambda>c. c \<noteq> CHR ''T'') s = ''2024-01-05'' \<and> started w = Some s \<longrightarrow>
      (\<forall>c. isWorklogInDateRange (w\<lparr>created := c\<rparr>) None (Some ''2024-01-05'')) \<and>
      (\<forall>c f. f \<le> ''2024-01-05'' \<longrightarrow>
          isWorklogInDateRange (w\<lparr>created := c\<rparr>) (Some f) (Some ''2024-01-05'')) \<and>
      (\<forall>c from. \<not> isWorklogInDateRange (w\<lparr>created := c\<rparr>) from (Some ''2024-01-04''))) \<and>
   (\<forall>c. isWorklogInDateRange (w\<lparr>created := c\<rparr>) from to = isWorklogInDateRange w from to) \<and>
   (started w = Some s \<and> s \<noteq> [] \<and> (truthy from \<or> truthy to) \<longrightarrow>
      isWorklogInDateRange w from to =
        ((truthy from \<longrightarrow> the from \<le> takeWhile (\<lambda>c. c \<noteq> CHR ''T'') s) \<and>
         (truthy to \<longrightarrow> takeWhile (\<lambda>c. c \<noteq> CHR ''T'') s \<le> the to)))"
proof -
  have "s \<noteq> []" if "takeWhile (\<lambda>c. c \<noteq> CHR ''T'') s = ''2024-01-05''"
    using that by auto
  then show ?thesis
    by (auto simp: isWorklogInDateRange_def truthy_def Let_def split: option.splits)
qed

theorem isWorklogInDateRange_started_only_witness:
  "isWorklogInDateRange
     \<lparr>author = \<lparr>accountId = None, emailAddress = None, displayName = None\<rparr>,
      timeSpentSeconds = 60, started = Some ''2024-01-05T23:30:00.000+0000'',
      created = Some ''2024-01-07T08:00:00.000+0000''\<rparr> (Some ''2024-01-01'') (Some ''2024-01-05'') \<and>
   \<not> isWorklogInDateRange
     \<lparr>author = \<lparr>accountId = None, emailAddress = None, displayName = None\<rparr>,
      timeSpentSeconds = 60, started = Some ''2024-01-05T23:30:00.000+0000'',
      created = Some ''2024-01-07T08:00:00.000+0000''\<rparr> (Some ''2024-01-01'') (Some ''2024-01-04'')"
  using isWorklogInDateRange_started_only [of "''2024-01-05T23:30:00.000+0000''"
     "\<lparr>author = \<lparr>accountId = None, emailAddress = None, displayName = None\<rparr>,
      timeSpentSeconds = 60, started = Some ''2024-01-05T23:30:00.000+0000'',
      created = Some ''2024-01-07T08:00:00.000+0000''\<rparr>" "Some ''2024-01-01''" "Some ''2024-01-04''"]
  by simp

section \<open>Calendar arithmetic\<close>

lemma div_succ: 
  fixes x k :: int assumes k: "0 < k"
  shows "(x + 1) div k = x div k + (if (x + 1) mod k = 0 then 1 else 0)"
proof -
  define q r where "q = x div k" and "r = x mod k"
  have x: "x = k * q + r" by (simp add: q_def r_def)
  have r: "0 \<le> r" "r < k" using k by (simp_all add: r_def)
  show ?thesis
  proof (cases "r + 1 < k")
    case True
    have e: "x + 1 = k * q + (r + 1)" using x by simp
    have "(x + 1) div k = q" using e r True by (intro int_div_pos_eq [where r = "r + 1"]) auto
    moreover have "(x + 1) mod k = r + 1" using e r True by (intro int_mod_pos_eq [where q = q]) auto
    ultimately show ?thesis using r by (simp add: q_def)
  next
    case False
    with r have rk: "r + 1 = k" by linarith
    have e: "x + 1 = k * (q + 1) + 0" using x rk by (simp add: algebra_simps)
    have "(x + 1) div k = q + 1" using e k by (intro int_div_pos_eq [where r = 0]) auto
    moreover have "(x + 1) mod k = 0" using e k by (intro int_mod_pos_eq [where q = "q + 1"]) auto
    ultimately show ?thesis by (simp add: q_def)
  qed
qed

lemma DayFromYear_step: "DayFromYear (y + 1) = DayFromYear y + DaysInYear y"
proof -
  define a b c where "a = (y - 1969) div 4" and "b = (y - 1901) div 100"
    and "c = (y - 1601) div 400"
  define p4 p100 p400 where "p4 \<longleftrightarrow> y mod 4 = 0" and "p100 \<longleftrightarrow> y mod 100 = 0"
    and "p400 \<longleftrightarrow> y mod 400 = 0"
  have "y - 1969 + 1 = y + 4 * (- 492)" "y - 1901 + 1 = y + 100 * (- 19)"
    "y - 1601 + 1 = y + 400 * (- 4)" by simp_all
  then have m: "(y - 1969 + 1) mod 4 = y mod 4" "(y - 1901 + 1) mod 100 = y mod 100"
    "(y - 1601 + 1) mod 400 = y mod 400"
    by (simp_all only: mod_mult_self2)
  have 4: "(y - 1969 + 1) div 4 = a + (if p4 then 1 else 0)"
    unfolding a_def p4_def m(1) [symmetric] by (rule div_succ) simp
  have 100: "(y - 1901 + 1) div 100 = b + (if p100 then 1 else 0)"
    unfolding b_def p100_def m(2) [symmetric] by (rule div_succ) simp
  have 400: "(y - 1601 + 1) div 400 = c + (if p400 then 1 else 0)"
    unfolding c_def p400_def m(3) [symmetric] by (rule div_succ) simp
  have "(4::int) dvd 100" "(100::int) dvd 400" by simp_all
  then have i1: "p100 \<Longrightarrow> p4" and i2: "p400 \<Longrightarrow> p100"
    unfolding p4_def p100_def p400_def
    by (meson dvd_trans mod_0_imp_dvd dvd_imp_mod_0)+
  have "y + 1 - 1970 = y - 1970 + 1" "y + 1 - 1969 = y - 1969 + 1" "y + 1 - 1901 = y - 1901 + 1"
    "y + 1 - 1601 = y - 1601 + 1" by simp_all
  then have e: "DayFromYear (y + 1) = 365 * (y - 1970 + 1) + (a + (if p4 then 1 else 0))
      - (b + (if p100 then 1 else 0)) + (c + (if p400 then 1 else 0))"
    unfolding DayFromYear_def by (simp only: 4 100 400)
  have e0: "DayFromYear y = 365 * (y - 1970) + a - b + c"
    by (simp only: DayFromYear_def a_def b_def c_def)
  have l: "DaysInYear y = (if p4 \<and> (\<not> p100 \<or> p400) then 366 else 365)"
    by (simp only: DaysInYear_def leap_year_def p4_def p100_def p400_def)
  show ?thesis
    unfolding e e0 l using i1 i2 by (cases p4; cases p100; cases p400) simp_all
qed

lemma div_lower: "0 < k \<Longrightarrow> k * (x div k) \<le> x" for x k :: int
  using mult_div_mod_eq [of k x] pos_mod_sign [of k x] by linarith

lemma div_upper: "0 < k \<Longrightarrow> x < k * (x div k) + k" for x k :: int
  using mult_div_mod_eq [of k x] pos_mod_bound [of k x] by linarith

lemma DayFromYear_le: "400 * DayFromYear y \<le> 146097 * y - 287810501"
proof -
  define q4 q100 q400 where "q4 = (y - 1969) div 4" and "q100 = (y - 1901) div 100"
    and "q400 = (y - 1601) div 400"
  have eq: "400 * DayFromYear y = 146000 * y - 287620000 + 400 * q4 - 400 * q100 + 400 * q400"
    by (simp add: DayFromYear_def q4_def q100_def q400_def)
  have "4 * q4 \<le> y - 1969" unfolding q4_def by (rule div_lower) simp
  moreover have "y - 1901 < 100 * q100 + 100" unfolding q100_def by (rule div_upper) simp
  moreover have "400 * q400 \<le> y - 1601" unfolding q400_def by (rule div_lower) simp
  ultimately show ?thesis unfolding eq by linarith
qed

lemma DayFromYear_ge: "146097 * y - 287811596 \<le> 400 * DayFromYear y"
proof -
  define q4 q100 q400 where "q4 = (y - 1969) div 4" and "q100 = (y - 1901) div 100"
    and "q400 = (y - 1601) div 400"
  have eq: "400 * DayFromYear y = 146000 * y - 287620000 + 400 * q4 - 400 * q100 + 400 * q400"
    by (simp add: DayFromYear_def q4_def q100_def q400_def)
  have "y - 1969 < 4 * q4 + 4" unfolding q4_def by (rule div_upper) simp
  moreover have "100 * q100 \<le> y - 1901" unfolding q100_def by (rule div_lower) simp
  moreover have "y - 1601 < 400 * q400 + 400" unfolding q400_def by (rule div_upper) simp
  ultimately show ?thesis unfolding eq by linarith
qed

lemma YearFromDay_bounds: "DayFromYear (YearFromDay d) \<le> d \<and> d < DayFromYear (YearFromDay d + 1)"
proof -
  define q where "q = (400 * d) div 146097"
  define y0 where "y0 = 1970 + q"
  have a1: "146097 * q \<le> 400 * d" unfolding q_def by (rule div_lower) simp
  have a2: "400 * d < 146097 * q + 146097" unfolding q_def by (rule div_upper) simp
  have "400 * DayFromYear (y0 - 1) \<le> 146097 * q + 146097 * 1969 - 287810501"
    using DayFromYear_le [of "y0 - 1"] by (simp add: y0_def algebra_simps)
  with a1 have lo: "DayFromYear (y0 - 1) \<le> d" by linarith
  have "146097 * q + 146097 * 1972 - 287811596 \<le> 400 * DayFromYear (y0 + 2)"
    using DayFromYear_ge [of "y0 + 2"] by (simp add: y0_def algebra_simps)
  with a2 have hi: "d < DayFromYear (y0 + 2)" by linarith
  have y: "YearFromDay d = (if DayFromYear (y0 + 1) \<le> d then y0 + 1
      else if d < DayFromYear y0 then y0 - 1  else y0)"
    by (simp add: YearFromDay_def y0_def q_def Let_def)
  have s: "y0 + 1 + 1 = y0 + 2" "y0 - 1 + 1 = y0" by simp_all
  show ?thesis
    unfolding y using lo hi by (simp add: s)
qed

lemma DayFromYear_mono: "y \<le> y' \<Longrightarrow> DayFromYear y \<le> DayFromYear y'"
proof (induction "nat (y' - y)" arbitrary: y')
  case 0
  then show ?case by simp
next
  case (Suc n)
  then have "n = nat ((y' - 1) - y)" "y \<le> y' - 1" by linarith+
  then have "DayFromYear y \<le> DayFromYear (y' - 1)" by (rule Suc.hyps(1))
  moreover have "DayFromYear (y' - 1) \<le> DayFromYear y'"
    using DayFromYear_step [of "y' - 1"] by (simp add: DaysInYear_def)
  ultimately show ?case by simp
qed

lemma YearFromDay_unique:
  assumes "DayFromYear y \<le> d" "d < DayFromYear (y + 1)"
  shows "YearFromDay d = y"
proof (rule ccontr)
  assume ne: "YearFromDay d \<noteq> y"
  let ?z = "YearFromDay d"
  from YearFromDay_bounds [of d] have b: "DayFromYear ?z \<le> d" "d < DayFromYear (?z + 1)" by simp_all
  from ne consider "?z + 1 \<le> y" | "y + 1 \<le> ?z" by linarith
  then show False
  proof cases
    case 1
    then have "DayFromYear (?z + 1) \<le> DayFromYear y" by (rule DayFromYear_mono)
    with b assms show False by linarith
  next
    case 2
    then have "DayFromYear (y + 1) \<le> DayFromYear ?z" by (rule DayFromYear_mono)
    with b assms show False by linarith
  qed
qed

lemma YearFromDay_mono: "d \<le> e \<Longrightarrow> YearFromDay d \<le> YearFromDay e"
proof (rule ccontr)
  assume de: "d \<le> e" and "\<not> YearFromDay d \<le> YearFromDay e"
  then have "YearFromDay e + 1 \<le> YearFromDay d" by simp
  then have "DayFromYear (YearFromDay e + 1) \<le> DayFromYear (YearFromDay d)" by (rule DayFromYear_mono)
  with YearFromDay_bounds [of d] YearFromDay_bounds [of e] de show False by linarith
qed



lemma DayWithinYear_bounds:
  "0 \<le> DayWithinYear d" "DayWithinYear d < DaysInYear (YearFromDay d)"
  using YearFromDay_bounds [of d] DayFromYear_step [of "YearFromDay d"]
  by (simp_all add: DayWithinYear_def)

lemma MonthFromDay_le: "MonthFromDay d \<le> 11"
  by (simp add: MonthFromDay_def Let_def)

lemma DateFromDay_bounds:
  "1 \<le> DateFromDay d"
  "DateFromDay d \<le> month_start (InLeapYear d) (MonthFromDay d + 1)
      - month_start (InLeapYear d) (MonthFromDay d)"
  "DateFromDay d \<le> 31"
  using DayWithinYear_bounds [of d]
  by (auto simp: DateFromDay_def MonthFromDay_def month_start_def Let_def DaysInYear_def
      InLeapYear_def)

lemma MakeDay_civil:
  "MakeDay (YearFromDay d) (int (MonthFromDay d)) (DateFromDay d + k) = d + k"
proof -
  have "int (MonthFromDay d) div 12 = 0" "nat (int (MonthFromDay d) mod 12) = MonthFromDay d"
    using MonthFromDay_le [of d] by simp_all
  then show ?thesis
    by (simp add: MakeDay_def DateFromDay_def DayWithinYear_def InLeapYear_def)
qed

lemma length_pad [simp]: "length (pad k n) = k"
  by (induction k arbitrary: n) simp_all

lemma of_char_digit_char: "n < 10 \<Longrightarrow> (of_char (digit_char n) :: nat) = 48 + n"
  by (simp add: digit_char_def)

lemma is_digit_digit_char: "n < 10 \<Longrightarrow> is_digit (digit_char n)"
  by (simp add: is_digit_def less_eq_char_def of_char_digit_char)

lemma pad_digits: "list_all is_digit (pad k n)"
  by (induction k arbitrary: n) (simp_all add: is_digit_digit_char)

lemma foldl_pad:
  "foldl (\<lambda>a c. 10 * a + (of_char c - 48)) 0 (pad k n) = n mod 10 ^ k"
proof (induction k arbitrary: n)
  case 0
  then show ?case by simp
next
  case (Suc k)
  have "n mod (10 * 10 ^ k) = 10 * (n div 10 mod 10 ^ k) + n mod 10"
    by (rule mod_mult2_eq)
  with Suc show ?case by (simp add: of_char_digit_char)
qed

lemma digits_val_pad: "0 < k \<Longrightarrow> n < 10 ^ k \<Longrightarrow> digits_val (pad k n) = Some n"
  by (auto simp: digits_val_def pad_digits foldl_pad dest: arg_cong [where f = length])


lemma pad_2: "pad 2 n = [digit_char (n div 10 mod 10), digit_char (n mod 10)]"
  by (simp add: numeral_2_eq_2)

lemma pad_Cons: "0 < k \<Longrightarrow> \<exists>c cs. pad k n = c # cs \<and> is_digit c"
proof -
  assume "0 < k"
  then have "pad k n \<noteq> []" by (auto dest: arg_cong [where f = length])
  then obtain c cs where e: "pad k n = c # cs" by (cases "pad k n") auto
  with pad_digits [of k n] show ?thesis by auto
qed

lemma digit_not_sign: "is_digit c \<Longrightarrow> c \<noteq> CHR ''+'' \<and> c \<noteq> CHR ''-''"
  by (auto simp: is_digit_def)

lemma parse_year_year_string:
  assumes "\<bar>y\<bar> \<le> 999999"
  shows "parse_year (year_string y @ rest) = Some (y, rest)"
proof (cases "0 \<le> y \<and> y \<le> 9999")
  case True
  obtain c cs where e: "pad 4 (nat y) = c # cs" and c: "is_digit c"
    using pad_Cons [of 4 "nat y"] by auto
  from True have v: "digits_val (pad 4 (nat y)) = Some (nat y)"
    by (intro digits_val_pad) auto
  have l: "length cs = 3" using arg_cong [OF e, of length] by simp
  have "take 4 (pad 4 (nat y) @ rest) = pad 4 (nat y)" "drop 4 (pad 4 (nat y) @ rest) = rest"
    by simp_all
  then have td: "take 4 (c # cs @ rest) = c # cs" "drop 4 (c # cs @ rest) = rest"
    unfolding e by simp_all
  have "parse_year (c # cs @ rest) = Some (y, rest)"
    unfolding parse_year_def list.case td using True v l digit_not_sign [OF c]
    by (simp add: e)
  with True show ?thesis by (simp add: year_string_def e)
next
  case False
  from assms have v: "digits_val (pad 6 (nat \<bar>y\<bar>)) = Some (nat \<bar>y\<bar>)"
    by (intro digits_val_pad) auto
  from False v show ?thesis
    by (auto simp: parse_year_def year_string_def)
qed

lemma parse_two_pad:
  "n < 100 \<Longrightarrow> parse_two sep (sep # pad 2 n @ rest) = Some (n, rest)"
  using digits_val_pad [of 2 n]
  by (simp add: parse_two_def pad_2 is_digit_digit_char)

lemma YearFromDay_range:
  assumes "\<bar>d\<bar> \<le> 100000000"
  shows "- 271821 \<le> YearFromDay d" "YearFromDay d \<le> 275760"
proof -
  have "YearFromDay (- 100000000) = - 271821" "YearFromDay 100000000 = 275760"
    by (simp_all add: YearFromDay_def DayFromYear_def)
  then show "- 271821 \<le> YearFromDay d" "YearFromDay d \<le> 275760"
    using assms YearFromDay_mono [of "- 100000000" d] YearFromDay_mono [of d 100000000]
    by simp_all
qed

lemma Date_parse_iso_date:
  assumes "\<bar>d\<bar> \<le> 100000000"
  shows "Date_parse (iso_date d) = Some (TimeClip (MakeDate d 0))"
    and "Date_parse (iso_date d @ ''T12:00:00.000Z'') = Some (TimeClip (MakeDate d 43200000))"
proof -
  let ?y = "YearFromDay d" and ?m = "MonthFromDay d" and ?t = "DateFromDay d"
  have y: "\<bar>?y\<bar> \<le> 999999" using YearFromDay_range [OF assms] by simp
  have m: "?m + 1 < 100" "1 \<le> ?m + 1" "?m + 1 \<le> 12" using MonthFromDay_le [of d] by simp_all
  have t: "nat ?t < 100" "1 \<le> nat ?t" "int (nat ?t) = ?t"
    "?t \<le> month_start (leap_year ?y) (?m + 1) - month_start (leap_year ?y) (?m + 1 - 1)" 
    using DateFromDay_bounds [of d] by (simp_all add: InLeapYear_def)
  have md: "MakeDay ?y (int (?m + 1) - 1) ?t = d"
    using MakeDay_civil [of d 0] by simp
  have pt: "parse_time ''T12:00:00.000Z'' = Some 43200000" "parse_time [] = Some 0"
    by (simp_all add: parse_time_def parse_two_def is_digit_def digits_val_def)
  have s: "iso_date d @ tail = year_string ?y @ (CHR ''-'' # pad 2 (?m + 1) @ 
      (CHR ''-'' # pad 2 (nat ?t) @ tail))" for tail
    by (simp add: iso_date_def)
  have "Date_parse (iso_date d @ tail) =
      (case parse_time tail of None \<Rightarrow> None | Some ms \<Rightarrow> Some (TimeClip (MakeDate d ms)))" for tail
    unfolding Date_parse_def s parse_year_year_string [OF y] parse_two_pad [OF m(1)]
      parse_two_pad [OF t(1)] option.case prod.case
    using m(2,3) t(2,3,4) md
    by (simp split: option.splits)
  from this [of "[]"] this [of "''T12:00:00.000Z''"] pt
  show "Date_parse (iso_date d) = Some (TimeClip (MakeDate d 0))"
    and "Date_parse (iso_date d @ ''T12:00:00.000Z'') = Some (TimeClip (MakeDate d 43200000))"
    by simp_all
qed


lemma less_append_same_length:
  fixes xs ys :: string
  shows "length xs = length ys \<Longrightarrow> xs < ys \<Longrightarrow> xs @ us < ys @ vs"
  by (induction xs ys rule: list_induct2) auto

lemma less_append_prefix:
  fixes us vs :: string
  shows "us < vs \<Longrightarrow> xs @ us < xs @ vs"
  by (induction xs) auto

lemma digit_char_less: "a < b \<Longrightarrow> b < 10 \<Longrightarrow> digit_char a < digit_char b"
  by (simp add: less_char_def of_char_digit_char)

lemma pad_mono: "a < b \<Longrightarrow> b < 10 ^ k \<Longrightarrow> pad k a < pad k b"
proof (induction k arbitrary: a b)
  case 0
  then show ?case by simp
next
  case (Suc k)
  from Suc.prems have b: "b div 10 < 10 ^ k" by (simp add: less_mult_imp_div_less mult.commute)
  from Suc.prems have "a div 10 \<le> b div 10" by (simp add: div_le_mono)
  then consider "a div 10 < b div 10" | "a div 10 = b div 10" by linarith
  then show ?case
  proof cases
    case 1
    then have "pad k (a div 10) < pad k (b div 10)" using b by (rule Suc.IH)
    then show ?thesis by (simp add: less_append_same_length)
  next
    case 2
    have "a = 10 * (a div 10) + a mod 10" "b = 10 * (b div 10) + b mod 10" by simp_all
    with 2 Suc.prems(1) have "a mod 10 < b mod 10" by linarith
    then have "digit_char (a mod 10) < digit_char (b mod 10)" by (rule digit_char_less) simp
    then show ?thesis using 2 by (simp add: less_append_prefix)
  qed
qed

lemma MonthFromDay_mono:
  "YearFromDay d = YearFromDay e \<Longrightarrow> d \<le> e \<Longrightarrow> MonthFromDay d \<le> MonthFromDay e"
  by (auto simp: MonthFromDay_def DayWithinYear_def InLeapYear_def Let_def)

lemma year_string_less:
  assumes "- 1 \<le> y" "y < y'" "y' \<le> 9999"
  shows "year_string y @ us < year_string y' @ vs"
proof (cases "y = - 1")
  case True
  obtain c cs where e: "pad 4 (nat y') = c # cs" and c: "is_digit c"
    using pad_Cons [of 4 "nat y'"] by auto
  from c have "CHR ''-'' < c" by (auto simp: is_digit_def less_char_def less_eq_char_def)
  with True assms e show ?thesis by (simp add: year_string_def)
next
  case False
  with assms have "pad 4 (nat y) < pad 4 (nat y')" by (intro pad_mono) auto
  with False assms show ?thesis by (simp add: year_string_def less_append_same_length)
qed

lemma iso_date_less:
  assumes lo: "- 719535 \<le> d" and de: "d < e" and hi: "e < 2932897"
  shows "iso_date d < iso_date e"
proof -
  let ?y = "YearFromDay d" and ?y' = "YearFromDay e"
  have "YearFromDay (- 719535) = - 1" "YearFromDay 2932896 = 9999"
    by (simp_all add: YearFromDay_def DayFromYear_def)
  then have r: "- 1 \<le> ?y" "?y' \<le> 9999"
    using YearFromDay_mono [of "- 719535" d] YearFromDay_mono [of e 2932896] lo hi by simp_all
  have yy: "?y \<le> ?y'" using de by (intro YearFromDay_mono) simp
  show ?thesis
  proof (cases "?y < ?y'")
    case True
    with r show ?thesis unfolding iso_date_def by (intro year_string_less) auto
  next
    case False
    with yy have same: "?y = ?y'" by simp
    then have leap: "InLeapYear d = InLeapYear e" by (simp add: InLeapYear_def)
    have mm: "MonthFromDay d \<le> MonthFromDay e" using same de by (intro MonthFromDay_mono) auto
    have "pad 2 (MonthFromDay d + 1) @ ''-'' @ pad 2 (nat (DateFromDay d))
        < pad 2 (MonthFromDay e + 1) @ ''-'' @ pad 2 (nat (DateFromDay e))"
    proof (cases "MonthFromDay d < MonthFromDay e")
      case True
      then have "pad 2 (MonthFromDay d + 1) < pad 2 (MonthFromDay e + 1)"
        using MonthFromDay_le [of e] by (intro pad_mono) auto
      then show ?thesis by (intro less_append_same_length) auto
    next
      case False
      with mm have m: "MonthFromDay d = MonthFromDay e" by simp
      have "DateFromDay d < DateFromDay e"
        using de same m leap by (simp add: DateFromDay_def DayWithinYear_def)
      then have "nat (DateFromDay d) < nat (DateFromDay e)"
        using DateFromDay_bounds(1) [of d] by linarith
      then have "pad 2 (nat (DateFromDay d)) < pad 2 (nat (DateFromDay e))"
        using DateFromDay_bounds(3) [of e] by (intro pad_mono) auto
      then show ?thesis unfolding m by (intro less_append_prefix)
    qed
    then have "''-'' @ pad 2 (MonthFromDay d + 1) @ ''-'' @ pad 2 (nat (DateFromDay d))
        < ''-'' @ pad 2 (MonthFromDay e + 1) @ ''-'' @ pad 2 (nat (DateFromDay e))"
      by (rule less_append_prefix)
    then show ?thesis unfolding iso_date_def same by (rule less_append_prefix)
  qed
qed

section \<open>The day loop terminates\<close>

lemma Day_MakeDate: "0 \<le> r \<Longrightarrow> r < msPerDay \<Longrightarrow> Day (MakeDate d r) = d"
  unfolding Day_def MakeDate_def msPerDay_def
  by (rule int_div_pos_eq [where r = r]) simp_all

lemma TimeWithinDay_MakeDate: "0 \<le> r \<Longrightarrow> r < msPerDay \<Longrightarrow> TimeWithinDay (MakeDate d r) = r"
  unfolding TimeWithinDay_def MakeDate_def msPerDay_def
  by (rule int_mod_pos_eq [where q = d]) simp_all

lemma MakeDate_Day: "MakeDate (Day t) (TimeWithinDay t) = t"
  by (simp add: MakeDate_def Day_def TimeWithinDay_def)

lemma TimeWithinDay_bounds: "0 \<le> TimeWithinDay t" "TimeWithinDay t < msPerDay"
  by (simp_all add: TimeWithinDay_def msPerDay_def)

lemma Day_range: "\<bar>t\<bar> \<le> 8640000000000000 \<Longrightarrow> \<bar>Day t\<bar> \<le> 100000000"
proof -
  assume a: "\<bar>t\<bar> \<le> 8640000000000000"
  have "86400000 * (t div 86400000) \<le> t" by (rule div_lower) simp
  moreover have "t < 86400000 * (t div 86400000) + 86400000" by (rule div_upper) simp
  ultimately show ?thesis using a unfolding Day_def msPerDay_def by linarith
qed

lemma TimeClip_Some: "TimeClip t = Some u \<longleftrightarrow> u = t \<and> \<bar>t\<bar> \<le> 8640000000000000"
  by (auto simp: TimeClip_def)

lemma Date_parse_clipped: "Date_parse s = Some (Some t) \<Longrightarrow> \<bar>t\<bar> \<le> 8640000000000000"
  by (auto simp: Date_parse_def TimeClip_Some split: option.splits if_splits)

lemma setUTCDate_next:
  "setUTCDate (Some t) (map_option (\<lambda>x. x + k) (getUTCDate (Some t))) = TimeClip (t + k * msPerDay)"
proof -
  have "MakeDate (Day t + k) (TimeWithinDay t) = t + k * msPerDay"
    using MakeDate_Day [of t] by (simp add: MakeDate_def algebra_simps)
  then show ?thesis
    by (simp add: setUTCDate_def getUTCDate_def MakeDay_civil)
qed

lemma Day_add_days: "Day (t + k * msPerDay) = Day t + k"
  by (simp add: Day_def msPerDay_def)

lemma nextDay_rank:
  assumes "nextDay s = Inr s'"
  shows "day_rank s' < day_rank s"
proof -
  from assms obtain tv where p: "Date_parse (s @ ''T12:00:00.000Z'') = Some tv"
    and r: "toISODate (setUTCDate tv (map_option (\<lambda>x. x + 1) (getUTCDate tv))) = Inr s'"
    by (auto simp: nextDay_def new_Date_def split: option.splits)
  from r obtain t where tv: "tv = Some t"
    by (cases tv) (auto simp: setUTCDate_def toISODate_def)
  from r tv have c: "\<bar>t + msPerDay\<bar> \<le> 8640000000000000" and s': "s' = iso_date (Day t + 1)"
    using setUTCDate_next [of t 1] Day_add_days [of t 1]
    by (auto simp: toISODate_def TimeClip_def split: option.splits if_splits)
  from p tv have t: "\<bar>t\<bar> \<le> 8640000000000000" by (auto dest: Date_parse_clipped)
  have d1: "\<bar>Day t + 1\<bar> \<le> 100000000" using Day_range [OF c] Day_add_days [of t 1] by simp
  have rs: "day_rank s = nat (100000001 - Day t)" using p tv by (simp add: day_rank_def)
  have pos: "0 < 100000001 - Day t" using d1 by linarith
  have "Date_parse (s' @ ''T12:00:00.000Z'') = Some (TimeClip (MakeDate (Day t + 1) 43200000))"
    unfolding s' using d1 by (rule Date_parse_iso_date(2))
  then have "day_rank s' = (case TimeClip (MakeDate (Day t + 1) 43200000) of
      None \<Rightarrow> 0 | Some u \<Rightarrow> nat (100000001 - Day u))"
    by (simp add: day_rank_def split: option.splits)
  moreover have "Day (MakeDate (Day t + 1) 43200000) = Day t + 1"
    by (rule Day_MakeDate) (simp_all add: msPerDay_def)
  ultimately have "day_rank s' = 0 \<or> day_rank s' = nat (100000001 - (Day t + 1))"
    by (auto simp: TimeClip_def)
  with rs pos show ?thesis by linarith
qed

termination splitLoop
  by (relation "measure (\<lambda>(tz, now, up, baseJql, projectKey, username, accessToken, cloudId,
        effectiveTo, dateStr, acc, sent). day_rank dateStr)")
    (auto simp: nextDay_rank)

declare splitLoop.simps [simp del]

section \<open>The range-split fetcher\<close>

lemma setDate_const:
  assumes tz: "tz = (\<lambda>t b. c)"
  shows "setDate tz (Some t) (map_option (\<lambda>x. x + k) (getDate tz (Some t))) = TimeClip (t + k * msPerDay)"
proof -
  have "MakeDate (Day (t + c) + k) (TimeWithinDay (t + c)) - c = t + k * msPerDay"
    using MakeDate_Day [of "t + c"] by (simp add: MakeDate_def algebra_simps)
  then show ?thesis
    by (simp add: setDate_def getDate_def tz MakeDay_civil Let_def)
qed

lemma toISODate_TimeClip_MakeDate:
  assumes "\<bar>d\<bar> \<le> 100000000"
  shows "toISODate (TimeClip (MakeDate d 0)) = Inr (iso_date d)"
proof -
  have "\<bar>MakeDate d 0\<bar> \<le> 8640000000000000"
    using assms by (simp add: MakeDate_def msPerDay_def)
  moreover have "Day (MakeDate d 0) = d" by (rule Day_MakeDate) (simp_all add: msPerDay_def)
  ultimately show ?thesis by (simp add: toISODate_def TimeClip_def)
qed

lemma addDays_const:
  assumes tz: "tz = (\<lambda>t b. c)" and p: "Date_parse s = Some (Some (MakeDate d 0))"
    and r: "\<bar>d + n\<bar> \<le> 100000000"
  shows "addDays tz s n = Inr (iso_date (d + n))"
proof -
  have "MakeDate d 0 + n * msPerDay = MakeDate (d + n) 0" by (simp add: MakeDate_def algebra_simps)
  then show ?thesis
    using toISODate_TimeClip_MakeDate [OF r]
    by (simp add: addDays_def new_Date_def p setDate_const [OF tz])
qed

lemma setDate_const_sub:
  assumes tz: "tz = (\<lambda>t b. c)"
  shows "setDate tz (Some t) (map_option (\<lambda>x. x - k) (getDate tz (Some t))) = TimeClip (t - k * msPerDay)"
proof -
  have "MakeDate (Day (t + c) - k) (TimeWithinDay (t + c)) - c = t - k * msPerDay"
    using MakeDate_Day [of "t + c"] by (simp add: MakeDate_def algebra_simps)
  then show ?thesis
    using MakeDay_civil [of "Day (t + c)" "- k"]
    by (simp add: setDate_def getDate_def tz Let_def)
qed

lemma subtractDays_const:
  assumes tz: "tz = (\<lambda>t b. c)" and p: "Date_parse s = Some (Some (MakeDate d 0))"
    and r: "\<bar>d - n\<bar> \<le> 100000000"
  shows "subtractDays tz s n = Inr (iso_date (d - n))"
proof -
  have e: "MakeDate d 0 - n * msPerDay = MakeDate (d - n) 0" by (simp add: MakeDate_def algebra_simps)
  have "subtractDays tz s n = toISODate (TimeClip (MakeDate d 0 - n * msPerDay))"
    by (simp add: subtractDays_def new_Date_def p setDate_const_sub [OF tz])
  then show ?thesis
    unfolding e by (simp add: toISODate_TimeClip_MakeDate [OF r])
qed

lemma Date_parse_iso_date_day:
  assumes "\<bar>d\<bar> \<le> 100000000"
  shows "Date_parse (iso_date d) = Some (Some (MakeDate d 0))"
proof -
  have "\<bar>MakeDate d 0\<bar> \<le> 8640000000000000"
    using assms by (simp add: MakeDate_def msPerDay_def)
  then show ?thesis using Date_parse_iso_date(1) [OF assms] by (simp add: TimeClip_def)
qed

lemma nextDay_iso_date:
  assumes "- 100000000 \<le> d" "d + 1 < 100000000"
  shows "nextDay (iso_date d) = Inr (iso_date (d + 1))"
proof -
  have a: "\<bar>d\<bar> \<le> 100000000" using assms by simp
  have c: "\<bar>MakeDate d 43200000\<bar> \<le> 8640000000000000"
    using assms by (simp add: MakeDate_def msPerDay_def)
  have p: "Date_parse (iso_date d @ ''T12:00:00.000Z'') = Some (Some (MakeDate d 43200000))"
    using Date_parse_iso_date(2) [OF a] c by (simp add: TimeClip_def)
  have e: "MakeDate d 43200000 + 1 * msPerDay = MakeDate (d + 1) 43200000"
    by (simp add: MakeDate_def algebra_simps)
  have c': "\<bar>MakeDate (d + 1) 43200000\<bar> \<le> 8640000000000000"
    using assms by (simp add: MakeDate_def msPerDay_def)
  have D: "Day (MakeDate (d + 1) 43200000) = d + 1"
    by (rule Day_MakeDate) (simp_all add: msPerDay_def)
  have "nextDay (iso_date d) = toISODate (TimeClip (MakeDate d 43200000 + 1 * msPerDay))"
    by (simp only: nextDay_def new_Date_def p option.case sum.case setUTCDate_next)
  also have "\<dots> = Inr (iso_date (d + 1))"
    unfolding e using c' D by (simp add: toISODate_def TimeClip_def)
  finally show ?thesis .
qed

lemma iso_date_nonempty: "iso_date d \<noteq> []"
  by (simp add: iso_date_def)

lemma buildJql_day:
  assumes tz: "tz = (\<lambda>t b. c)" and now: "\<bar>now\<bar> \<le> 8640000000000000"
    and x: "\<bar>x\<bar> \<le> 100000000" "\<bar>x - 365\<bar> \<le> 100000000"
  shows "\<exists>q. buildJql tz now baseJql (Some (iso_date x)) (Some (iso_date x)) projectKey False username = Inr q"
proof -
  have s: "subtractDays tz (iso_date x) 365 = Inr (iso_date (x - 365))"
    using tz Date_parse_iso_date_day [OF x(1)] x(2) by (rule subtractDays_const)
  have t: "toISODate (TimeClip now) = Inr (iso_date (Day now))"
    using now by (simp add: toISODate_def TimeClip_def)
  show ?thesis
    by (simp add: buildJql_def truthy_def iso_date_nonempty and_then_def s t Let_def)
qed


lemma mergeIssues_append: "mergeIssues acc (xs @ ys) = mergeIssues (mergeIssues acc xs) ys"
  by (induction acc xs rule: mergeIssues.induct) auto

lemma find_app:
  "find P (xs @ ys) = (case find P xs of None \<Rightarrow> find P ys | Some a \<Rightarrow> Some a)"
  by (induction xs) auto

lemma find_key_skip:
  assumes "key x \<in> key ` set xs"
  shows "find (\<lambda>i. key i = k) (xs @ x # ys) = find (\<lambda>i. key i = k) (xs @ ys)"
proof (cases "k = key x")
  case True
  with assms obtain a where "find (\<lambda>i. key i = k) xs = Some a"
    by (cases "find (\<lambda>i. key i = k) xs") (auto simp: find_None_iff)
  then show ?thesis by (simp add: find_app)
next
  case False
  then show ?thesis by (auto simp: find_app split: option.splits)
qed

lemma mergeIssues_first:
  assumes "seen = key ` set xs" "distinct (map key xs)"
  shows "snd (mergeIssues (xs, seen) ys) = key ` set (fst (mergeIssues (xs, seen) ys)) \<and>
         distinct (map key (fst (mergeIssues (xs, seen) ys))) \<and>
         (\<forall>k. find (\<lambda>i. key i = k) (fst (mergeIssues (xs, seen) ys)) =
              find (\<lambda>i. key i = k) (xs @ ys))"
  using assms
proof (induction ys arbitrary: xs seen)
  case Nil
  then show ?case by simp
next
  case (Cons y ys)
  show ?case
  proof (cases "key y \<in> seen")
    case True
    with Cons.prems have "key y \<in> key ` set xs" by simp
    then have "find (\<lambda>i. key i = k) (xs @ y # ys) = find (\<lambda>i. key i = k) (xs @ ys)" for k
      by (rule find_key_skip)
    with Cons.IH [OF Cons.prems] True show ?thesis by simp
  next
    case False
    with Cons.prems have "insert (key y) seen = key ` set (xs @ [y])" "distinct (map key (xs @ [y]))"
      by auto
    from Cons.IH [OF this] False show ?thesis by simp
  qed
qed

lemma getIssues_eq:
  "getIssues up jql accessToken cloudId sent = (r, sent') \<Longrightarrow>
   sent' = sent @ [jql] \<and> (\<forall>found. r = Inr found \<longrightarrow> found = search_result up accessToken cloudId (length sent) jql)"
  by (auto simp: getIssues_def search_result_def split: sum.splits option.splits)

lemma day_results_append:
  "day_results up tok cid n (qs @ qs') = day_results up tok cid n qs @ day_results up tok cid (n + length qs) qs'"
  by (induction qs arbitrary: n) auto

lemma splitLoop_trace:
  "splitLoop tz now up baseJql projectKey username accessToken cloudId effectiveTo dateStr acc sent = (r, sent')
   \<Longrightarrow> \<exists>qs. sent' = sent @ qs \<and>
         (\<forall>res. r = Inr res \<longrightarrow>
            res = fst (mergeIssues acc (concat (day_results up accessToken cloudId (length sent) qs))))"
proof (induction tz now up baseJql projectKey username accessToken cloudId effectiveTo dateStr acc sent
    arbitrary: r sent' rule: splitLoop.induct)
  case (1 tz now up baseJql projectKey username accessToken cloudId effectiveTo dateStr acc sent)
  note eq = "1.prems" [unfolded splitLoop.simps [of tz now up baseJql projectKey username accessToken
        cloudId effectiveTo dateStr acc sent]]
  show ?case
  proof (cases "dateStr \<le> effectiveTo")
    case False
    with eq show ?thesis by (intro exI [of _ "[]"]) auto
  next
    case le: True
    show ?thesis
    proof (cases "buildJql tz now baseJql (Some dateStr) (Some dateStr) projectKey False username")
      case (Inl e)
      with eq le show ?thesis by (intro exI [of _ "[]"]) auto
    next
      case (Inr jql)
      obtain r1 sent1 where g: "getIssues up jql accessToken cloudId sent = (r1, sent1)"
        by (cases "getIssues up jql accessToken cloudId sent") auto
      from getIssues_eq [OF g] have s1: "sent1 = sent @ [jql]"
        and f1: "\<And>found. r1 = Inr found \<Longrightarrow> found = search_result up accessToken cloudId (length sent) jql"
        by auto
      show ?thesis
      proof (cases r1)
        case (Inl e)
        with eq le Inr g s1 show ?thesis by (intro exI [of _ "[jql]"]) auto
      next
        case found: (Inr found)
        show ?thesis
        proof (cases "dateStr = effectiveTo")
          case True
          with eq le Inr g found s1 f1 [OF found] show ?thesis
            by (intro exI [of _ "[jql]"]) auto
        next
          case ne: False
          show ?thesis
          proof (cases "nextDay dateStr")
            case (Inl e)
            with eq le Inr g found ne s1 show ?thesis by (intro exI [of _ "[jql]"]) auto
          next
            case nx: (Inr nxt)
            from eq le Inr g found ne nx
            have rec: "splitLoop tz now up baseJql projectKey username accessToken cloudId effectiveTo
                nxt (mergeIssues acc found) sent1 = (r, sent')" by simp
            from "1.IH" [OF le Inr g [symmetric] found ne nx rec] obtain qs where
              q: "sent' = sent1 @ qs" and
              res: "\<And>res. r = Inr res \<Longrightarrow> res = fst (mergeIssues (mergeIssues acc found)
                    (concat (day_results up accessToken cloudId (length sent1) qs)))"
              by auto
            show ?thesis
              using q res s1 f1 [OF found]
              by (intro exI [of _ "jql # qs"]) (auto simp: mergeIssues_append)
          qed
        qed
      qed
    qed
  qed
qed


lemma splitLoop_days:
  assumes tz: "tz = (\<lambda>t b. c)" and now: "\<bar>now\<bar> \<le> 8640000000000000"
    and ok: "\<And>n q. \<exists>data. search_jql up n cloudId accessToken q = Inr data"
    and lo: "- 719535 \<le> d" and de: "d \<le> e" and hi: "e < 2932897"
  shows "\<exists>res qs. splitLoop tz now up baseJql projectKey username accessToken cloudId
            (iso_date e) (iso_date d) acc sent = (Inr res, sent @ qs) \<and>
          map Inr qs = map (\<lambda>x. buildJql tz now baseJql (Some (iso_date x)) (Some (iso_date x))
                              projectKey False username) [d..e]"
  using lo de
proof (induction "nat (e - d)" arbitrary: d acc sent)
  case 0
  then have d: "d = e" by simp
  have "\<bar>e\<bar> \<le> 100000000" "\<bar>e - 365\<bar> \<le> 100000000" using 0 hi d by linarith+
  from buildJql_day [OF tz now this]
  obtain q where bq: "buildJql tz now baseJql (Some (iso_date e)) (Some (iso_date e)) projectKey
      False username = Inr q" by blast
  obtain data where sd: "search_jql up (length sent) cloudId accessToken q = Inr data"
    using ok by blast
  show ?case
    unfolding d
    by (subst splitLoop.simps) (simp add: bq getIssues_def sd)
next
  case (Suc n)
  then have lt: "d < e" by linarith
  have "\<bar>d\<bar> \<le> 100000000" "\<bar>d - 365\<bar> \<le> 100000000" using Suc.prems lt hi by linarith+
  from buildJql_day [OF tz now this]
  obtain q where bq: "buildJql tz now baseJql (Some (iso_date d)) (Some (iso_date d)) projectKey
      False username = Inr q" by blast
  obtain data where sd: "search_jql up (length sent) cloudId accessToken q = Inr data"
    using ok by blast
  have less: "iso_date d < iso_date e" using Suc.prems(1) lt hi by (rule iso_date_less)
  then have le: "iso_date d \<le> iso_date e" and ne: "iso_date d \<noteq> iso_date e" by simp_all
  have nx: "nextDay (iso_date d) = Inr (iso_date (d + 1))"
    using Suc.prems lt hi by (intro nextDay_iso_date) simp_all
  have "n = nat (e - (d + 1))" "- 719535 \<le> d + 1" "d + 1 \<le> e" using Suc lt by linarith+
  from Suc.hyps(1) [OF this] obtain res qs where
    rec: "splitLoop tz now up baseJql projectKey username accessToken cloudId (iso_date e)
        (iso_date (d + 1)) (mergeIssues acc (case data of None \<Rightarrow> [] | Some found \<Rightarrow> found))
        (sent @ [q]) = (Inr res, (sent @ [q]) @ qs)"
    and qs: "map Inr qs = map (\<lambda>x. buildJql tz now baseJql (Some (iso_date x)) (Some (iso_date x))
                              projectKey False username) [d + 1..e]"
    by blast
  have up: "[d..e] = d # [d + 1..e]" using lt by (simp add: upto_rec1)
  have "splitLoop tz now up baseJql projectKey username accessToken cloudId
            (iso_date e) (iso_date d) acc sent = (Inr res, sent @ q # qs)"
    by (subst splitLoop.simps) (simp add: bq getIssues_def sd le ne nx rec)
  moreover have "map Inr (q # qs) = map (\<lambda>x. buildJql tz now baseJql (Some (iso_date x))
      (Some (iso_date x)) projectKey False username) [d..e]"
    unfolding up using bq qs by simp
  ultimately show ?case by blast
qed

lemma split_window:
  assumes "\<forall>t b. tz t b = c"
    and "\<bar>now\<bar> \<le> 8640000000000000"
    and "\<forall>n q. \<exists>data. search_jql up n cloudId accessToken q = Inr data"
    and "Date_parse from = Some (Some (MakeDate df 0))"
    and "Date_parse to = Some (Some (MakeDate dt 0))"
    and "DayFromYear 0 \<le> df" and "df \<le> dt" and "dt + 7 < DayFromYear 10000"
  shows "\<exists>res qs.
          getIssuesWithDateRangeSplit tz now up baseJql from to projectKey accessToken cloudId
            username sent = (Inr res, sent @ qs) \<and>
          map Inr qs = map (\<lambda>x. buildJql tz now baseJql (Some (iso_date x)) (Some (iso_date x))
                              projectKey False username) [df - 7..dt + 7]"
proof -
  have y: "DayFromYear 0 = - 719528" "DayFromYear 10000 = 2932897"
    by (simp_all add: DayFromYear_def)
  from assms(1) have tz: "tz = (\<lambda>t b. c)" by (auto intro!: ext)
  from assms(3) have ok: "\<And>n q. \<exists>data. search_jql up n cloudId accessToken q = Inr data" by simp
  have f: "subtractDays tz from 7 = Inr (iso_date (df - 7))"
    using tz assms(4) by (rule subtractDays_const) (use assms(6-8) y in linarith)
  have t: "addDays tz to 7 = Inr (iso_date (dt + 7))"
    using tz assms(5) by (rule addDays_const) (use assms(6-8) y in linarith)
  have "- 719535 \<le> df - 7" "df - 7 \<le> dt + 7" "dt + 7 < 2932897"
    using assms(6-8) y by linarith+
  from splitLoop_days [OF tz assms(2) ok this]
  show ?thesis by (simp add: getIssuesWithDateRangeSplit_def f t)
qed


lemma pad_4: "pad 4 n = [digit_char (n div 10 div 10 div 10 mod 10), digit_char (n div 10 div 10 mod 10),
    digit_char (n div 10 mod 10), digit_char (n mod 10)]"
proof -
  have e: "pad (Suc (Suc (Suc (Suc 0)))) n = [digit_char (n div 10 div 10 div 10 mod 10),
      digit_char (n div 10 div 10 mod 10), digit_char (n div 10 mod 10), digit_char (n mod 10)]"
    by simp
  have four: "(4::nat) = Suc (Suc (Suc (Suc 0)))" by simp
  show ?thesis unfolding four by (fact e)
qed

lemma pad_6: "pad 6 n = [digit_char (n div 10 div 10 div 10 div 10 div 10 mod 10),
    digit_char (n div 10 div 10 div 10 div 10 mod 10),
    digit_char (n div 10 div 10 div 10 mod 10), digit_char (n div 10 div 10 mod 10),
    digit_char (n div 10 mod 10), digit_char (n mod 10)]"
proof -
  have e: "pad (Suc (Suc (Suc (Suc (Suc (Suc 0)))))) n = [digit_char (n div 10 div 10 div 10 div 10 div 10 mod 10),
    digit_char (n div 10 div 10 div 10 div 10 mod 10),
    digit_char (n div 10 div 10 div 10 mod 10), digit_char (n div 10 div 10 mod 10),
    digit_char (n div 10 mod 10), digit_char (n mod 10)]"
    by simp
  have six: "(6::nat) = Suc (Suc (Suc (Suc (Suc (Suc 0)))))" by simp
  show ?thesis unfolding six by (fact e)
qed

lemma digit_char_eval:
  "digit_char 0 = CHR ''0''" "digit_char (Suc 0) = CHR ''1''" "digit_char 2 = CHR ''2''"
  "digit_char 3 = CHR ''3''" "digit_char 4 = CHR ''4''" "digit_char 5 = CHR ''5''"
  "digit_char 6 = CHR ''6''" "digit_char 7 = CHR ''7''" "digit_char 8 = CHR ''8''"
  "digit_char 9 = CHR ''9''"
proof -
  have "(of_char c :: nat) = of_char d \<Longrightarrow> c = d" for c d by (simp add: of_char_eq_iff)
  note inj = this
  show "digit_char 0 = CHR ''0''" "digit_char (Suc 0) = CHR ''1''" "digit_char 2 = CHR ''2''"
  "digit_char 3 = CHR ''3''" "digit_char 4 = CHR ''4''" "digit_char 5 = CHR ''5''"
  "digit_char 6 = CHR ''6''" "digit_char 7 = CHR ''7''" "digit_char 8 = CHR ''8''"
  "digit_char 9 = CHR ''9''"
    by (rule inj, simp add: of_char_digit_char)+
qed

lemmas date_eval = iso_date_def year_string_def YearFromDay_def DayFromYear_def MonthFromDay_def
  DateFromDay_def DayWithinYear_def InLeapYear_def leap_year_def month_start_def Let_def
  digit_char_eval pad_2 pad_4 pad_6


lemma Date_parse_eval:
  "iso_date d = s \<Longrightarrow> \<bar>d\<bar> \<le> 100000000 \<Longrightarrow> Date_parse s = Some (Some (MakeDate d 0))"
  using Date_parse_iso_date_day [of d] by simp




text \<open>
  Claim C2. Whatever the searches return, when the fetcher returns a list, no two of its
  issues share a key, and for every key the issue it holds is the first one with that key
  among the results of the searches it made, taken in the order of the days.
\<close>

theorem getIssuesWithDateRangeSplit_dedup:
  assumes "getIssuesWithDateRangeSplit tz now up baseJql from to projectKey accessToken cloudId
             username sent = (Inr res, sent')"
  shows "distinct (map key res) \<and>
         (\<forall>k. find (\<lambda>i. key i = k) res =
              find (\<lambda>i. key i = k)
                (concat (day_results up accessToken cloudId (length sent)
                           (drop (length sent) sent'))))"
proof -
  from assms obtain effectiveFrom effectiveTo where
    "splitLoop tz now up baseJql projectKey username accessToken cloudId effectiveTo effectiveFrom
       ([], {}) sent = (Inr res, sent')"
    by (auto simp: getIssuesWithDateRangeSplit_def split: sum.splits)
  from splitLoop_trace [OF this] obtain qs where s: "sent' = sent @ qs"
    and r: "res = fst (mergeIssues ([], {}) (concat (day_results up accessToken cloudId (length sent) qs)))"
    by auto
  from s have d: "drop (length sent) sent' = qs" by simp
  have "{} = key ` set []" "distinct (map key [])" by simp_all
  from mergeIssues_first [OF this] show ?thesis
    unfolding r d by simp
qed

lemma example_run:
  "\<exists>res qs.
     getIssuesWithDateRangeSplit (\<lambda>t b. 0) 1704412800000 example_upstream None ''2024-01-10''
       ''2024-01-12'' None ''token'' ''cloud-1'' None [] = (Inr res, qs) \<and>
     length qs = 17"
proof -
  have f: "Date_parse ''2024-01-10'' = Some (Some (MakeDate 19732 0))"
    by (rule Date_parse_eval) (simp_all add: date_eval)
  have t: "Date_parse ''2024-01-12'' = Some (Some (MakeDate 19734 0))"
    by (rule Date_parse_eval) (simp_all add: date_eval)
  have y: "DayFromYear 0 \<le> 19732" "19734 + 7 < DayFromYear 10000"
    by (simp_all add: DayFromYear_def)
  have ok: "\<forall>n q. \<exists>data. search_jql example_upstream n ''cloud-1'' ''token'' q = Inr data"
    by (simp add: example_upstream_def)
  have "\<forall>t b. (\<lambda>t b. 0::int) t b = 0" by simp
  from split_window [OF this _ ok f t y(1) _ y(2), of 1704412800000 None None None "[]"]
  obtain res qs where
    r: "getIssuesWithDateRangeSplit (\<lambda>t b. 0) 1704412800000 example_upstream None ''2024-01-10''
       ''2024-01-12'' None ''token'' ''cloud-1'' None [] = (Inr res, qs)"
    and q: "map Inr qs = map (\<lambda>x. buildJql (\<lambda>t b. 0) 1704412800000 None (Some (iso_date x))
        (Some (iso_date x)) None False None) [19732 - 7..19734 + 7]"
    by auto
  from arg_cong [OF q, of length] have "length qs = 17" by simp
  with r show ?thesis by blast
qed

theorem getIssuesWithDateRangeSplit_dedup_witness:
  "\<exists>res qs.
     getIssuesWithDateRangeSplit (\<lambda>t b. 0) 1704412800000 example_upstream None ''2024-01-10''
       ''2024-01-12'' None ''token'' ''cloud-1'' None [] = (Inr res, qs) \<and>
     distinct (map key res) \<and>
     find (\<lambda>i. key i = ''SS-1'') res = Some \<lparr>i_id = ''10001'', key = ''SS-1'', i_fields = None\<rparr> \<and>
     find (\<lambda>i. key i = ''SS-2'') res = Some \<lparr>i_id = ''10002'', key = ''SS-2'', i_fields = None\<rparr>"
proof -
  from example_run obtain res qs where
    r: "getIssuesWithDateRangeSplit (\<lambda>t b. 0) 1704412800000 example_upstream None ''2024-01-10''
       ''2024-01-12'' None ''token'' ''cloud-1'' None [] = (Inr res, qs)"
    and l: "length qs = 17" by blast
  from l obtain q0 q1 rest where qs: "qs = q0 # q1 # rest"
    by (cases qs; cases "tl qs") auto
  have c: "concat (day_results example_upstream ''token'' ''cloud-1'' 0 qs) =
      \<lparr>i_id = ''10001'', key = ''SS-1'', i_fields = None\<rparr> #
      \<lparr>i_id = ''10009'', key = ''SS-1'', i_fields = None\<rparr> #
      \<lparr>i_id = ''10002'', key = ''SS-2'', i_fields = None\<rparr> #
      concat (day_results example_upstream ''token'' ''cloud-1'' 2 rest)"
    unfolding qs by (simp add: search_result_def example_upstream_def numeral_2_eq_2)
  from getIssuesWithDateRangeSplit_dedup [OF r] c
  have "distinct (map key res)"
    and "find (\<lambda>i. key i = ''SS-1'') res = Some \<lparr>i_id = ''10001'', key = ''SS-1'', i_fields = None\<rparr>"
    and "find (\<lambda>i. key i = ''SS-2'') res = Some \<lparr>i_id = ''10002'', key = ''SS-2'', i_fields = None\<rparr>"
    by simp_all
  with r show ?thesis by blast
qed

section \<open>Tenant resolution\<close>

lemma getCloudId_cases:
  "(accessible_resources up accessToken = Inr rs \<and>
      (rs = None \<or> rs = Some [] \<or> (\<forall>r\<in>set (the rs). \<not> has_read_scope r)) \<longrightarrow>
      getCloudId up accessToken = Inl (Error ''Failed to get cloudId'')) \<and>
   (accessible_resources up accessToken = Inr (Some (xs @ r # ys)) \<and> has_read_scope r \<and>
      (\<forall>x\<in>set xs. \<not> has_read_scope x) \<longrightarrow>
      getCloudId up accessToken = Inr (res_id r)) \<and>
   (accessible_resources up accessToken = Inl st \<longrightarrow>
      getCloudId up accessToken =
        Inl (if st = Some 401 \<or> st = Some 403
             then UnauthorizedException ''Invalid or expired access token''
             else Error ''Failed to get cloudId''))"
proof -
  have n: "find P zs = None" if "\<forall>x\<in>set zs. \<not> P x" for P and zs :: "resource list"
    using that by (simp add: find_None_iff)
  have f: "find P (xs @ r # ys) = Some r" if "\<forall>x\<in>set xs. \<not> P x" "P r" for P
    using that by (induction xs) auto
  have 1: "getCloudId up accessToken = Inl (Error ''Failed to get cloudId'')"
    if "accessible_resources up accessToken = Inr rs"
      "rs = None \<or> rs = Some [] \<or> (\<forall>r\<in>set (the rs). \<not> has_read_scope r)"
    using that n [of "the rs" has_read_scope]
    by (auto simp: getCloudId_def handle_http_def response_status_def)
  have 2: "getCloudId up accessToken = Inr (res_id r)"
    if "accessible_resources up accessToken = Inr (Some (xs @ r # ys))" "has_read_scope r"
      "\<forall>x\<in>set xs. \<not> has_read_scope x"
    using that f [of has_read_scope] by (simp add: getCloudId_def)
  have 3: "getCloudId up accessToken =
        Inl (if st = Some 401 \<or> st = Some 403
             then UnauthorizedException ''Invalid or expired access token''
             else Error ''Failed to get cloudId'')"
    if "accessible_resources up accessToken = Inl st"
    using that by (auto simp: getCloudId_def handle_http_def response_status_def)
  from 1 2 3 show ?thesis by blast
qed

text \<open>
  Claim C5 at its failing inputs. With an empty resource list, and with resources none of
  which has the scope, \<open>getCloudId\<close> ends with the generic \<open>Error\<close> of its own \<open>catch\<close>
  block and not with \<open>UnauthorizedException\<close>: the exception it throws inside the \<open>try\<close>
  carries no \<open>response.status\<close>. With a resource that has the scope it returns the
  first one's id.
\<close>

theorem getCloudId_swallows_its_own_exception:
  "getCloudId (example_upstream\<lparr>accessible_resources := (\<lambda>tok. Inr (Some []))\<rparr>) ''token'' =
     Inl (Error ''Failed to get cloudId'') \<and>
   getCloudId (example_upstream\<lparr>accessible_resources :=
       (\<lambda>tok. Inr (Some [\<lparr>res_id = ''cloud-9'', scopes = Some [''read:me'']\<rparr>]))\<rparr>) ''token'' =
     Inl (Error ''Failed to get cloudId'') \<and>
   getCloudId example_upstream ''token'' = Inr ''cloud-1''"
  by (simp add: getCloudId_def handle_http_def response_status_def example_upstream_def has_read_scope_def)

section \<open>The default query\<close>





section \<open>Worklogs without a start date\<close>

lemma process_worklog_no_started:
  assumes "truthy from \<or> truthy to" "\<not> truthy (started w)"
  shows "process_worklog from to username i w st = Inr st"
  using assms by (auto simp: process_worklog_def isWorklogInDateRange_def)

lemma process_worklogs_filter_started:
  assumes "truthy from \<or> truthy to"
  shows "process_worklogs from to username i ws st =
         process_worklogs from to username i (filter (\<lambda>w. truthy (started w)) ws) st"
proof (induction ws arbitrary: st)
  case Nil
  then show ?case by simp
next
  case (Cons w ws)
  show ?case
  proof (cases "truthy (started w)")
    case True
    with Cons show ?thesis by (simp split: sum.splits)
  next
    case False
    with Cons process_worklog_no_started [OF assms False] show ?thesis by simp
  qed
qed

lemma process_issues_filter_started:
  assumes "truthy from \<or> truthy to"
  shows "process_issues from to username worklogsByIssue issues st =
         process_issues from to username
           (\<lambda>k. map_option (filter (\<lambda>w. truthy (started w))) (worklogsByIssue k)) issues st"
proof (induction issues arbitrary: st)
  case Nil
  then show ?case by simp
next
  case (Cons i rest)
  have "process_worklogs from to username i
          (case worklogsByIssue (key i) of None \<Rightarrow> [] | Some ws \<Rightarrow> ws) st =
        process_worklogs from to username i
          (case map_option (filter (\<lambda>w. truthy (started w))) (worklogsByIssue (key i)) of
             None \<Rightarrow> [] | Some ws \<Rightarrow> ws) st" for st
  proof (cases "worklogsByIssue (key i)")
    case None
    then show ?thesis by simp
  next
    case (Some ws)
    then show ?thesis
      using process_worklogs_filter_started [OF assms, of username i ws st] by simp
  qed
  with Cons show ?case by (simp split: sum.splits)
qed

text \<open>
  Claim C6, as the code has it. When at least one date bound is given, a worklog without a
  \<open>started\<close> date is skipped: it leaves \<open>worklogsByUser\<close> as it was, and the response is
  the one computed with all such worklogs removed. When no bound is given, no date filter
  is applied, and the worklog is treated like any other.
\<close>

theorem aggregate_skips_no_started:
  "(truthy from \<or> truthy to \<longrightarrow>
      aggregate from to username issues worklogsByIssue =
      aggregate from to username issues
        (\<lambda>k. map_option (filter (\<lambda>w. truthy (started w))) (worklogsByIssue k))) \<and>
   (truthy from \<or> truthy to \<longrightarrow> \<not> truthy (started w) \<longrightarrow>
      process_worklog from to username i w st = Inr st) \<and>
   (\<not> truthy from \<and> \<not> truthy to \<longrightarrow> isWorklogInDateRange w from to)"
  using process_issues_filter_started [of "from" "to" username worklogsByIssue issues "[]"]
    process_worklog_no_started [of "from" "to" w username i st]
  by (auto simp: aggregate_def isWorklogInDateRange_def)

text \<open>
  Claim C6 as stated fails when both bounds are absent: the worklog without \<open>started\<close>
  is put into its author's bucket and counted.
\<close>

theorem no_started_counted_without_dates_counterexample:
  "process_issues None None None [''SS-1'' \<mapsto> [example_worklog]] [example_issue] [] =
     Inr [(''ana@example.com'',
           \<lparr>b_seconds = 3600, b_issues = [(''SS-1'', example_issue, [example_worklog])]\<rparr>)]"
  by (simp add: process_worklog_def isWorklogInDateRange_def truthy_def example_issue_def
      example_worklog_def object_prototype_names_def add_to_user_def add_to_issue_def)

theorem aggregate_skips_no_started_witness:
  "aggregate None (Some ''2024-01-31'') None [example_issue] [''SS-1'' \<mapsto> [example_worklog]] = Inr []"
proof -
  have "aggregate None (Some ''2024-01-31'') None [example_issue]
      (\<lambda>k. map_option (filter (\<lambda>w. truthy (started w))) ([''SS-1'' \<mapsto> [example_worklog]] k)) = Inr []"
    by (simp add: aggregate_def example_issue_def example_worklog_def truthy_def object_entries_def)
  with aggregate_skips_no_started [of None "Some ''2024-01-31''" None "[example_issue]"
      "[''SS-1'' \<mapsto> [example_worklog]]" example_worklog example_issue "[]"]
  show ?thesis by (simp add: truthy_def)
qed

end
